theory Spec2Isabelle
  imports Main "HOL-Library.AList" "HOL-Library.Multiset"
begin

section \<open>The world the converter runs in\<close>

text \<open>
  \<open>pdf2md.py\<close> splits a PDF into page-range chunks stored as temporary files, sends each
  chunk to a remote model with bounded retries, sorts the per-chunk results by index and
  joins them. Everything it does to its surroundings is made explicit here.

  Python \<open>str\<close> values are modelled as \<open>string\<close>, holding the UTF-8 bytes of the text: the
  program only concatenates and joins strings, and UTF-8 encoding commutes with both.
\<close>

type_synonym path = string

text \<open>A page is identified by a number; a PDF document is its ordered sequence of pages.\<close>

type_synonym page = nat

datatype disk_file = Pdf "page list" | Text string

text \<open>
  The mutable surroundings of one run:
  \<^item> \<open>files\<close>: the file system, an association list from paths to contents;
  \<^item> \<open>draws\<close>: how many values \<open>uuid.uuid4()\<close> has handed out;
  \<^item> \<open>write_faults\<close>: the outcome of the next file writes (\<open>new_doc.save\<close>, \<open>open(..., 'w')\<close>),
    one entry per write: \<open>None\<close> lets it succeed, \<open>Some msg\<close> makes it raise with that
    message; an exhausted list lets every further write succeed;
  \<^item> \<open>leftovers\<close>: what the next failing writes leave at their path, one entry per failing
    write: \<open>None\<close> leaves the path as it was (the write failed before the file was opened),
    \<open>Some g\<close> leaves the file \<open>g\<close> (an empty or partly written file); when the list is
    exhausted a failing write leaves the empty file, created or truncated before the failure;
  \<^item> \<open>remove_faults\<close>: as \<open>write_faults\<close>, for \<open>os.remove\<close>;
  \<^item> \<open>written\<close>: the log of everything the writes put on disk, in order, what a failing
    write left behind included (never read by the program).
\<close>

record world =
  files :: "(path \<times> disk_file) list"
  draws :: nat
  write_faults :: "string option list"
  leftovers :: "disk_file option list"
  remove_faults :: "string option list"
  written :: "(path \<times> disk_file) list"

text \<open>\<open>os.path.exists\<close>.\<close>

definition exists_path :: "world \<Rightarrow> path \<Rightarrow> bool" where
  "exists_path w p = (map_of (files w) p \<noteq> None)"

text \<open>The text of the operating system's and the PDF library's errors.\<close>

definition py_repr :: "string \<Rightarrow> string" where
  "py_repr s = [CHR 0x27] @ s @ [CHR 0x27]"

definition errno2 :: "path \<Rightarrow> string" where
  "errno2 p = ''[Errno 2] No such file or directory: '' @ py_repr p"

definition fitz_no_file :: "path \<Rightarrow> string" where
  "fitz_no_file p = ''no such file: '' @ py_repr p"

definition fitz_bad_file :: "path \<Rightarrow> string" where
  "fitz_bad_file p = ''Failed to open file '' @ py_repr p @ ''.''"

text \<open>\<open>fitz.open(path)\<close> followed by reading the pages: raises unless the path holds a PDF.\<close>

definition fitz_open :: "world \<Rightarrow> path \<Rightarrow> string + page list" where
  "fitz_open w p =
     (case map_of (files w) p of
        None \<Rightarrow> Inl (fitz_no_file p)
      | Some (Text t) \<Rightarrow> Inl (fitz_bad_file p)
      | Some (Pdf ps) \<Rightarrow> Inr ps)"

text \<open>
  A file write. Without a fault the path holds the new content, replacing what was there.
  A write that fails may already have created or truncated the file: what it leaves at the
  path is the environment's choice, taken from \<open>leftovers\<close>.
\<close>

definition write_file :: "path \<Rightarrow> disk_file \<Rightarrow> world \<Rightarrow> (string + unit) \<times> world" where
  "write_file p f w =
     (case write_faults w of
        Some e # fs \<Rightarrow>
          (case leftovers w of
             None # ls \<Rightarrow> (Inl e, w\<lparr>write_faults := fs, leftovers := ls\<rparr>)
           | Some g # ls \<Rightarrow>
               (Inl e, w\<lparr>files := AList.update p g (files w), write_faults := fs,
                         leftovers := ls, written := written w @ [(p, g)]\<rparr>)
           | [] \<Rightarrow>
               (Inl e, w\<lparr>files := AList.update p (Text []) (files w), write_faults := fs,
                         written := written w @ [(p, Text [])]\<rparr>))
      | None # fs \<Rightarrow>
          (Inr (), w\<lparr>files := AList.update p f (files w), write_faults := fs,
                     written := written w @ [(p, f)]\<rparr>)
      | [] \<Rightarrow>
          (Inr (), w\<lparr>files := AList.update p f (files w),
                     written := written w @ [(p, f)]\<rparr>))"

text \<open>\<open>os.remove\<close> of an existing file.\<close>

definition os_remove :: "path \<Rightarrow> world \<Rightarrow> (string + unit) \<times> world" where
  "os_remove p w =
     (case remove_faults w of
        Some e # fs \<Rightarrow> (Inl e, w\<lparr>remove_faults := fs\<rparr>)
      | None # fs \<Rightarrow> (Inr (), w\<lparr>files := AList.delete p (files w), remove_faults := fs\<rparr>)
      | [] \<Rightarrow> (Inr (), w\<lparr>files := AList.delete p (files w)\<rparr>))"

section \<open>The converter object\<close>

text \<open>
  One \<open>ChunkResult\<close> dictionary \<open>{'index', 'content', 'success'}\<close>, and the payload
  \<open>{'mime_type', 'data'}\<close> sent to the model. The base64 text of the payload is an injective
  image of the file's content, so \<open>data\<close> holds the content itself.
\<close>

record chunk_result =
  index :: nat
  content :: string
  success :: bool

record pdf_data =
  mime_type :: string
  data :: disk_file

text \<open>
  \<open>self\<close>: the configuration fields and the remote model. \<open>model i a d\<close> is the outcome of
  \<open>self.model.generate_content([prompt, d]).text\<close> when it is called for chunk \<open>i\<close> on attempt
  \<open>a\<close>: \<open>Inr text\<close>, or \<open>Inl msg\<close> when the call raises an exception whose text is \<open>msg\<close>.
\<close>

record converter =
  chunk_size :: int
  max_retries :: int
  temp_dir :: path
  model :: "nat \<Rightarrow> nat \<Rightarrow> pdf_data \<Rightarrow> string + string"

section \<open>Splitting\<close>

text \<open>\<open>range(start, stop, step)\<close> for a positive step.\<close>

function range_from :: "nat \<Rightarrow> nat \<Rightarrow> nat \<Rightarrow> nat list" where
  "range_from start stop step =
     (if step = 0 \<or> stop \<le> start then [] else start # range_from (start + step) stop step)"
  by pat_completeness auto
termination
  by (relation "measure (\<lambda>(start, stop, step). stop - start)") auto

declare range_from.simps [simp del]

text \<open>
  \<open>range(0, stop, step)\<close> with \<open>stop \<ge> 0\<close>: a zero step raises \<open>ValueError\<close>, a negative step
  gives the empty range.
\<close>

definition py_range0 :: "nat \<Rightarrow> int \<Rightarrow> string + nat list" where
  "py_range0 stop step =
     (if step = 0 then Inl ''range() arg 3 must not be zero''
      else if step < 0 then Inr []
      else Inr (range_from 0 stop (nat step)))"

text \<open>\<open>new_doc.insert_pdf(doc, from_page, to_page)\<close> into an empty document: both ends inclusive.\<close>

definition insert_pdf :: "page list \<Rightarrow> nat \<Rightarrow> nat \<Rightarrow> page list" where
  "insert_pdf doc from_page to_page = take (Suc to_page - from_page) (drop from_page doc)"

text \<open>\<open>os.path.join(self.temp_dir, f'chunk_{uuid.uuid4().hex}.pdf')\<close>.\<close>

definition chunk_path :: "converter \<Rightarrow> string \<Rightarrow> path" where
  "chunk_path self hex = temp_dir self @ ''/'' @ ''chunk_'' @ hex @ ''.pdf''"

text \<open>
  The body of the loop of \<open>_split_pdf\<close>, over the remaining start pages. \<open>uuid4_hex n\<close> is the
  \<open>n\<close>-th value of \<open>uuid.uuid4().hex\<close>. When \<open>save\<close> raises, the exception leaves
  \<open>_split_pdf\<close> and the local list \<open>temp_files\<close> is lost with it.
\<close>

fun split_loop ::
  "converter \<Rightarrow> (nat \<Rightarrow> string) \<Rightarrow> page list \<Rightarrow> nat list \<Rightarrow> path list \<Rightarrow> world \<Rightarrow>
     (string + path list) \<times> world" where
  "split_loop self uuid4_hex doc [] temp_files w = (Inr temp_files, w)"
| "split_loop self uuid4_hex doc (start # rest) temp_files w =
     (let total_pages = length doc;
          endp = min (start + nat (chunk_size self)) total_pages;
          new_doc = insert_pdf doc start (endp - 1);
          temp_file_path = chunk_path self (uuid4_hex (draws w));
          w1 = w\<lparr>draws := Suc (draws w)\<rparr>
      in case write_file temp_file_path (Pdf new_doc) w1 of
           (Inl e, w2) \<Rightarrow> (Inl e, w2)
         | (Inr u, w2) \<Rightarrow> split_loop self uuid4_hex doc rest (temp_files @ [temp_file_path]) w2)"

definition split_pdf ::
  "converter \<Rightarrow> (nat \<Rightarrow> string) \<Rightarrow> path \<Rightarrow> world \<Rightarrow> (string + path list) \<times> world" where
  "split_pdf self uuid4_hex pdf_path w =
     (case fitz_open w pdf_path of
        Inl e \<Rightarrow> (Inl e, w)
      | Inr doc \<Rightarrow>
          (case py_range0 (length doc) (chunk_size self) of
             Inl e \<Rightarrow> (Inl e, w)
           | Inr starts \<Rightarrow> split_loop self uuid4_hex doc starts [] w))"

section \<open>Processing one chunk\<close>

text \<open>The fixed message texts of the program, as UTF-8 bytes.\<close>

definition msg_read_failed :: string where
  "msg_read_failed =
     ''PDF'' @ [CHR 0xE6, CHR 0x96, CHR 0x87, CHR 0xE4, CHR 0xBB, CHR 0xB6, CHR 0xE8, CHR 0xAF,
       CHR 0xBB, CHR 0xE5, CHR 0x8F, CHR 0x96, CHR 0xE5, CHR 0xA4, CHR 0xB1, CHR 0xE8, CHR 0xB4,
       CHR 0xA5] @ '': ''"

definition msg_chunk_failed :: string where
  "msg_chunk_failed =
     [CHR 0xE5, CHR 0xA4, CHR 0x84, CHR 0xE7, CHR 0x90, CHR 0x86, CHR 0xE5, CHR 0xA4, CHR 0xB1,
      CHR 0xE8, CHR 0xB4, CHR 0xA5] @ '': ''"

definition msg_convert_failed :: string where
  "msg_convert_failed =
     [CHR 0xE8, CHR 0xBD, CHR 0xAC, CHR 0xE6, CHR 0x8D, CHR 0xA2, CHR 0xE8, CHR 0xBF, CHR 0x87,
      CHR 0xE7, CHR 0xA8, CHR 0x8B, CHR 0xE5, CHR 0x87, CHR 0xBA, CHR 0xE9, CHR 0x94, CHR 0x99]
     @ '': ''"

definition msg_save_failed :: string where
  "msg_save_failed =
     [CHR 0xE6, CHR 0x96, CHR 0x87, CHR 0xE4, CHR 0xBB, CHR 0xB6, CHR 0xE4, CHR 0xBF, CHR 0x9D,
      CHR 0xE5, CHR 0xAD, CHR 0x98, CHR 0xE9, CHR 0x94, CHR 0x99, CHR 0xE8, CHR 0xAF, CHR 0xAF]
     @ '': ''"

text \<open>The content of a failed chunk: \<open>f"<!-- ...: {str(e)} -->"\<close>.\<close>

definition failure_content :: "string \<Rightarrow> string" where
  "failure_content e = ''<!-- '' @ msg_chunk_failed @ e @ '' -->''"

text \<open>\<open>_read_pdf_file\<close>: any failure to read is raised again under the program's own message.\<close>

definition read_pdf_file :: "world \<Rightarrow> path \<Rightarrow> string + pdf_data" where
  "read_pdf_file w pdf_path =
     (case map_of (files w) pdf_path of
        None \<Rightarrow> Inl (msg_read_failed @ errno2 pdf_path)
      | Some f \<Rightarrow> Inr \<lparr>mime_type = ''application/pdf'', data = f\<rparr>)"

text \<open>
  What one chunk job does that can be observed from outside: a request to the remote model
  (chunk index, attempt) and a call of \<open>time.sleep\<close> (seconds).
\<close>

datatype event = Request nat nat | Sleep nat

text \<open>
  The \<open>try\<close> block of one attempt: read the chunk file, open it for its page count (the page
  information string built from it is never used), call the model.
\<close>

definition attempt_chunk ::
  "converter \<Rightarrow> world \<Rightarrow> path \<Rightarrow> nat \<Rightarrow> nat \<Rightarrow> (string + string) \<times> event list" where
  "attempt_chunk self w pdf_path chunk_index attempt =
     (case read_pdf_file w pdf_path of
        Inl e \<Rightarrow> (Inl e, [])
      | Inr payload \<Rightarrow>
          (case fitz_open w pdf_path of
             Inl e \<Rightarrow> (Inl e, [])
           | Inr doc \<Rightarrow>
               (model self chunk_index attempt payload, [Request chunk_index attempt])))"

text \<open>
  The retry loop of \<open>_process_chunk\<close> over the remaining attempts. The \<open>except\<close> branch sleeps
  first and only then looks whether this was the last attempt. When the attempts run out
  without a \<open>return\<close>, the Python function returns \<open>None\<close>.
\<close>

fun process_loop ::
  "converter \<Rightarrow> world \<Rightarrow> path \<Rightarrow> nat \<Rightarrow> nat list \<Rightarrow> chunk_result option \<times> event list" where
  "process_loop self w pdf_path chunk_index [] = (None, [])"
| "process_loop self w pdf_path chunk_index (attempt # rest) =
     (case attempt_chunk self w pdf_path chunk_index attempt of
        (Inr text, ev) \<Rightarrow>
          (Some \<lparr>index = chunk_index, content = text, success = True\<rparr>, ev)
      | (Inl e, ev) \<Rightarrow>
          (let ev1 = ev @ [Sleep (2 ^ attempt)] in
           if int attempt = max_retries self - 1
           then (Some \<lparr>index = chunk_index, content = failure_content e, success = False\<rparr>, ev1)
           else (case process_loop self w pdf_path chunk_index rest of
                   (r, ev2) \<Rightarrow> (r, ev1 @ ev2))))"

text \<open>\<open>range(n)\<close>: empty for \<open>n \<le> 0\<close>.\<close>

definition py_range :: "int \<Rightarrow> nat list" where
  "py_range n = [0..<nat n]"

definition process_chunk ::
  "converter \<Rightarrow> world \<Rightarrow> path \<Rightarrow> nat \<Rightarrow> chunk_result option \<times> event list" where
  "process_chunk self w pdf_path chunk_index =
     process_loop self w pdf_path chunk_index (py_range (max_retries self))"

section \<open>Orchestration\<close>

text \<open>
  \<open>as_completed(futures)\<close>: the futures in the order in which they finish. The order is the
  scheduler's choice: at each step \<open>sched\<close> names which of the pending futures finishes next
  (an exhausted schedule takes the first). Every order of completion arises from some schedule.
\<close>

function as_completed :: "nat list \<Rightarrow> 'a list \<Rightarrow> 'a list" where
  "as_completed sched [] = []"
| "as_completed sched (f # fs) =
     (let k = (case sched of [] \<Rightarrow> 0 | s # ss \<Rightarrow> s mod Suc (length fs))
      in (f # fs) ! k # as_completed (tl sched) (take k (f # fs) @ drop (Suc k) (f # fs)))"
  by pat_completeness auto
termination
  by (relation "measure (\<lambda>(sched, fs). length fs)")
     (auto split: list.splits simp: min_def)

text \<open>
  Both branches of the dispatch. A chunk job only reads the world, so its result does not
  depend on when it runs; in parallel mode the results arrive in completion order.
\<close>

definition dispatch ::
  "converter \<Rightarrow> nat list \<Rightarrow> bool \<Rightarrow> world \<Rightarrow> path list \<Rightarrow> chunk_result option list" where
  "dispatch self sched parallel w temp_files =
     (let futures = map (\<lambda>(idx, temp_file). fst (process_chunk self w temp_file idx))
                        (List.enumerate 0 temp_files)
      in if parallel then as_completed sched futures else futures)"

text \<open>
  \<open>results.sort(key=lambda x: x['index'])\<close>: a stable sort; subscripting a \<open>None\<close> result
  raises \<open>TypeError\<close>.
\<close>

definition sort_results :: "chunk_result option list \<Rightarrow> string + chunk_result list" where
  "sort_results results =
     (case those results of
        None \<Rightarrow> Inl (py_repr ''NoneType'' @ '' object is not subscriptable'')
      | Some rs \<Rightarrow> Inr (sort_key index rs))"

text \<open>\<open>sep.join(parts)\<close>.\<close>

fun py_join :: "string \<Rightarrow> string list \<Rightarrow> string" where
  "py_join sep [] = []"
| "py_join sep [x] = x"
| "py_join sep (x # y # ys) = x @ sep @ py_join sep (y # ys)"

definition blank_line :: string where
  "blank_line = [CHR 0x0A, CHR 0x0A]"

text \<open>
  The \<open>try\<close> block of \<open>convert_to_markdown\<close>. The result carries, beside the outcome, the value
  the variable \<open>temp_files\<close> has when the block is left: still \<open>[]\<close> when \<open>_split_pdf\<close> raised.
  The success ratio \<open>success_count / chunks_count\<close> is computed for the log only, but its
  division raises \<open>ZeroDivisionError\<close> when there is no chunk.
\<close>

definition convert_body ::
  "converter \<Rightarrow> (nat \<Rightarrow> string) \<Rightarrow> nat list \<Rightarrow> path \<Rightarrow> bool \<Rightarrow> world \<Rightarrow>
     (string + string) \<times> path list \<times> world" where
  "convert_body self uuid4_hex sched pdf_path parallel w =
     (case split_pdf self uuid4_hex pdf_path w of
        (Inl e, w1) \<Rightarrow> (Inl e, [], w1)
      | (Inr temp_files, w1) \<Rightarrow>
          (let chunks_count = length temp_files;
               results = dispatch self sched parallel w1 temp_files
           in case sort_results results of
                Inl e \<Rightarrow> (Inl e, temp_files, w1)
              | Inr sorted_results \<Rightarrow>
                  (let markdown_content = py_join blank_line (map content sorted_results)
                   in if chunks_count = 0 then (Inl ''division by zero'', temp_files, w1)
                      else (Inr markdown_content, temp_files, w1))))"

text \<open>
  The \<open>finally\<close> block: remove every recorded chunk file that still exists; a failing
  \<open>os.remove\<close> is logged as a warning and the loop goes on.
\<close>

fun cleanup :: "path list \<Rightarrow> world \<Rightarrow> world" where
  "cleanup [] w = w"
| "cleanup (temp_file # rest) w =
     (if exists_path w temp_file
      then (case os_remove temp_file w of (r, w1) \<Rightarrow> cleanup rest w1)
      else cleanup rest w)"

text \<open>
  \<open>convert_to_markdown\<close>: \<open>Inr\<close> the Markdown text, or \<open>Inl\<close> the message of the exception
  raised by the \<open>except\<close> branch. The world returned is the one after the \<open>finally\<close> block,
  which runs before the function is left on either path.
\<close>

definition convert_to_markdown ::
  "converter \<Rightarrow> (nat \<Rightarrow> string) \<Rightarrow> nat list \<Rightarrow> path \<Rightarrow> bool \<Rightarrow> world \<Rightarrow>
     (string + string) \<times> world" where
  "convert_to_markdown self uuid4_hex sched pdf_path parallel w =
     (case convert_body self uuid4_hex sched pdf_path parallel w of
        (Inr markdown_content, temp_files, w1) \<Rightarrow>
          (Inr markdown_content, cleanup temp_files w1)
      | (Inl e, temp_files, w1) \<Rightarrow>
          (Inl (msg_convert_failed @ e), cleanup temp_files w1))"

section \<open>Writing the result\<close>

definition save_markdown :: "string \<Rightarrow> path \<Rightarrow> world \<Rightarrow> (string + unit) \<times> world" where
  "save_markdown markdown_text output_path w =
     (case write_file output_path (Text markdown_text) w of
        (Inl e, w1) \<Rightarrow> (Inl (msg_save_failed @ e), w1)
      | (Inr u, w1) \<Rightarrow> (Inr (), w1))"

section \<open>Example runs\<close>

text \<open>
  Concrete surroundings on which the theorems below are run: a source of distinct chunk
  names, a ten-page document \<open>in.pdf\<close> on a disk without faults, and a converter with three
  pages per chunk, three attempts and a remote model that answers \<open>chunk{index}\<close>.
\<close>

definition ex_uuid4_hex :: "nat \<Rightarrow> string" where
  "ex_uuid4_hex n = replicate (Suc n) CHR ''a''"

definition ex_world :: world where
  "ex_world = \<lparr>files = [(''in.pdf'', Pdf [1, 2, 3, 4, 5, 6, 7, 8, 9, 10])], draws = 0,
                write_faults = [], leftovers = [], remove_faults = [], written = []\<rparr>"

definition ex_model :: "nat \<Rightarrow> nat \<Rightarrow> pdf_data \<Rightarrow> string + string" where
  "ex_model i a d = Inr (''chunk'' @ [char_of (48 + i)])"

definition ex_self :: converter where
  "ex_self = \<lparr>chunk_size = 3, max_retries = 3, temp_dir = ''temp'', model = ex_model\<rparr>"

text \<open>
  A remote model that fails on every call, a converter using it, a converter configured
  with \<open>max_retries = 0\<close>, and a world holding one chunk file.
\<close>

definition ex_failing_model :: "nat \<Rightarrow> nat \<Rightarrow> pdf_data \<Rightarrow> string + string" where
  "ex_failing_model i a d = Inl (''timeout '' @ [char_of (48 + a)])"

definition ex_failing_self :: converter where
  "ex_failing_self = ex_self\<lparr>model := ex_failing_model\<rparr>"

definition ex_no_retry_self :: converter where
  "ex_no_retry_self = ex_self\<lparr>max_retries := 0\<rparr>"

definition ex_chunk_world :: world where
  "ex_chunk_world = \<lparr>files = [(''temp/chunk_a.pdf'', Pdf [1, 2, 3])], draws = 1,
                      write_faults = [], leftovers = [], remove_faults = [], written = []\<rparr>"

text \<open>
  Five one-page chunks whose results are the letters \<open>A\<close> to \<open>E\<close>.
\<close>

definition ex_letter_model :: "nat \<Rightarrow> nat \<Rightarrow> pdf_data \<Rightarrow> string + string" where
  "ex_letter_model i a d = Inr [char_of (65 + i)]"

definition ex_letter_self :: converter where
  "ex_letter_self = \<lparr>chunk_size = 1, max_retries = 3, temp_dir = ''temp'', model = ex_letter_model\<rparr>"

definition ex_world5 :: world where
  "ex_world5 = \<lparr>files = [(''in.pdf'', Pdf [1, 2, 3, 4, 5])], draws = 0,
                 write_faults = [], leftovers = [], remove_faults = [], written = []\<rparr>"

text \<open>
  A readable document without pages, and a disk on which the destination already exists.
\<close>

definition ex_empty_world :: world where
  "ex_empty_world = \<lparr>files = [(''empty.pdf'', Pdf [])], draws = 0,
                      write_faults = [], leftovers = [], remove_faults = [], written = []\<rparr>"

definition ex_saved_world :: world where
  "ex_saved_world = \<lparr>files = [(''out.md'', Text ''old text'')], draws = 0,
                      write_faults = [], leftovers = [], remove_faults = [], written = []\<rparr>"

text \<open>
  The chunk paths of the ten-page example and the world right after splitting it; a disk on
  which the first \<open>os.remove\<close> fails; a disk on which the second write fails, leaving an
  empty file; a disk on which the first write is refused before any file is created.
\<close>

definition ex_chunk_paths :: "path list" where
  "ex_chunk_paths = [''temp/chunk_a.pdf'', ''temp/chunk_aa.pdf'', ''temp/chunk_aaa.pdf'',
                     ''temp/chunk_aaaa.pdf'']"

definition ex_split_world :: world where
  "ex_split_world =
     \<lparr>files = [(''in.pdf'', Pdf [1, 2, 3, 4, 5, 6, 7, 8, 9, 10]),
               (''temp/chunk_a.pdf'', Pdf [1, 2, 3]), (''temp/chunk_aa.pdf'', Pdf [4, 5, 6]),
               (''temp/chunk_aaa.pdf'', Pdf [7, 8, 9]), (''temp/chunk_aaaa.pdf'', Pdf [10])],
      draws = 4, write_faults = [], leftovers = [], remove_faults = [],
      written = [(''temp/chunk_a.pdf'', Pdf [1, 2, 3]), (''temp/chunk_aa.pdf'', Pdf [4, 5, 6]),
                 (''temp/chunk_aaa.pdf'', Pdf [7, 8, 9]), (''temp/chunk_aaaa.pdf'', Pdf [10])]\<rparr>"

definition ex_denied_world :: world where
  "ex_denied_world = ex_world\<lparr>remove_faults := [Some ''Permission denied'']\<rparr>"

definition ex_full_world :: world where
  "ex_full_world = ex_world\<lparr>write_faults := [None, Some ''No space left on device'']\<rparr>"

definition ex_refused_world :: world where
  "ex_refused_world =
     ex_world\<lparr>write_faults := [Some ''Permission denied''], leftovers := [None]\<rparr>"

text \<open>
  A remote model that fails on every call for chunk 1 and answers for the other chunks.
\<close>

definition ex_flaky_model :: "nat \<Rightarrow> nat \<Rightarrow> pdf_data \<Rightarrow> string + string" where
  "ex_flaky_model i a d = (if i = 1 then ex_failing_model i a d else ex_model i a d)"

definition ex_flaky_self :: converter where
  "ex_flaky_self = ex_self\<lparr>model := ex_flaky_model\<rparr>"

section \<open>Arithmetic of the chunk starts\<close>

lemma ceil_le_iff:
  assumes "0 < (s::nat)"
  shows "((P + s - 1) div s \<le> k) = (P \<le> k * s)"
proof -
  have "((P + s - 1) div s \<le> k) = ((P + s - 1) div s < Suc k)" by auto
  also have "\<dots> = (P + s - 1 < Suc k * s)" using assms by (simp only: div_less_iff_less_mult)
  also have "\<dots> = (P \<le> k * s)" using assms by auto
  finally show ?thesis .
qed

lemma range_from_mult:
  assumes "0 < s"
  shows "range_from (k * s) P s = map (\<lambda>i. i * s) [k..<(P + s - 1) div s]"
proof (induction "(P + s - 1) div s - k" arbitrary: k)
  case 0
  then have "P \<le> k * s" using ceil_le_iff[OF assms] by simp
  then show ?case using 0 by (subst range_from.simps) simp
next
  case (Suc n)
  then have lt: "k < (P + s - 1) div s" by simp
  then have "\<not> P \<le> k * s" using ceil_le_iff[OF assms, of P k] by simp
  moreover have "range_from (Suc k * s) P s = map (\<lambda>i. i * s) [Suc k..<(P + s - 1) div s]"
    using Suc by (intro Suc(1)) simp
  ultimately show ?case using assms lt
    by (subst range_from.simps) (simp add: upt_conv_Cons add.commute)
qed

lemma py_range0_pos:
  assumes "1 \<le> cs"
  shows "py_range0 P cs = Inr (map (\<lambda>i. i * nat cs) [0..<(P + nat cs - 1) div nat cs])"
proof -
  have "0 < nat cs" using assms by simp
  from range_from_mult[OF this, of 0 P] show ?thesis using assms by (simp add: py_range0_def)
qed

lemma concat_slices: "concat (map (\<lambda>i. take s (drop (i * s) xs)) [0..<n]) = take (n * s) xs"
proof (induction n)
  case 0
  show ?case by simp
next
  case (Suc n)
  have "take (s + n * s) xs = take (n * s) xs @ take s (drop (n * s) xs)"
    by (subst add.commute) (rule take_add)
  with Suc show ?case by simp
qed

lemma insert_pdf_slice:
  assumes "0 < s" and "start < length doc"
  shows "insert_pdf doc start (min (start + s) (length doc) - 1) = take s (drop start doc)"
proof (cases "start + s \<le> length doc")
  case True
  then have "Suc (min (start + s) (length doc) - 1) - start = s" using assms by simp
  then show ?thesis by (simp add: insert_pdf_def)
next
  case False
  then have "Suc (min (start + s) (length doc) - 1) - start = length doc - start"
    using assms by (simp add: min_def)
  moreover have "take s (drop start doc) = drop start doc" using False by simp
  ultimately show ?thesis by (simp add: insert_pdf_def)
qed

section \<open>File primitives\<close>

lemma write_file_Inr:
  assumes "write_file p f w = (Inr u, w1)"
  shows "files w1 = AList.update p f (files w)" and "written w1 = written w @ [(p, f)]"
    and "draws w1 = draws w" and "remove_faults w1 = remove_faults w"
    and "set (write_faults w1) \<subseteq> set (write_faults w)"
  using assms by (auto simp: write_file_def split: list.splits option.splits)

lemma write_file_Inl:
  assumes "write_file p f w = (Inl e, w1)"
  shows "draws w1 = draws w" and "remove_faults w1 = remove_faults w"
    and "Some e \<in> set (write_faults w)"
  using assms by (auto simp: write_file_def split: list.splits option.splits)

lemma write_file_no_fault:
  assumes "set (write_faults w) \<subseteq> {None}"
  shows "\<exists>w1. write_file p f w = (Inr (), w1)"
  using assms by (auto simp: write_file_def split: list.splits option.splits)

lemma os_remove_no_fault:
  assumes "set (remove_faults w) \<subseteq> {None}"
  shows "\<exists>w1. os_remove p w = (Inr (), w1) \<and> files w1 = AList.delete p (files w)
           \<and> written w1 = written w \<and> set (remove_faults w1) \<subseteq> {None}"
  using assms by (auto simp: os_remove_def split: list.splits option.splits)

section \<open>Splitting into chunks\<close>

lemma split_loop_Inr:
  assumes "split_loop self uu doc starts acc w = (Inr tfs, w')"
  shows "\<exists>new. tfs = acc @ new \<and> length new = length starts \<and>
           written w' = written w @ zip new
             (map (\<lambda>start. Pdf (insert_pdf doc start
                (min (start + nat (chunk_size self)) (length doc) - 1))) starts) \<and>
           remove_faults w' = remove_faults w"
  using assms
proof (induction starts arbitrary: acc w)
  case Nil
  then show ?case by simp
next
  case (Cons start rest)
  let ?p = "chunk_path self (uu (draws w))"
  let ?d = "Pdf (insert_pdf doc start (min (start + nat (chunk_size self)) (length doc) - 1))"
  let ?w1 = "w\<lparr>draws := Suc (draws w)\<rparr>"
  obtain r w2 where wf: "write_file ?p ?d ?w1 = (r, w2)" by (cases "write_file ?p ?d ?w1")
  show ?case
  proof (cases r)
    case (Inl e)
    with Cons.prems wf show ?thesis by (simp add: Let_def)
  next
    case (Inr u)
    with Cons.prems wf have rec: "split_loop self uu doc rest (acc @ [?p]) w2 = (Inr tfs, w')"
      by (simp add: Let_def)
    from Cons.IH[OF rec] obtain new where new: "tfs = (acc @ [?p]) @ new"
      "length new = length rest"
      "written w' = written w2 @ zip new
             (map (\<lambda>start. Pdf (insert_pdf doc start
                (min (start + nat (chunk_size self)) (length doc) - 1))) rest)"
      "remove_faults w' = remove_faults w2" by blast
    from wf Inr have w2: "written w2 = written w @ [(?p, ?d)]" "remove_faults w2 = remove_faults w"
      using write_file_Inr[of ?p ?d ?w1 u w2] by simp_all
    show ?thesis
      by (rule exI[of _ "?p # new"]) (simp add: new w2)
  qed
qed

lemma split_loop_no_fault:
  assumes "set (write_faults w) \<subseteq> {None}"
  shows "\<exists>tfs w'. split_loop self uu doc starts acc w = (Inr tfs, w')"
  using assms
proof (induction starts arbitrary: acc w)
  case Nil
  then show ?case by simp
next
  case (Cons start rest)
  let ?p = "chunk_path self (uu (draws w))"
  let ?d = "Pdf (insert_pdf doc start (min (start + nat (chunk_size self)) (length doc) - 1))"
  let ?w1 = "w\<lparr>draws := Suc (draws w)\<rparr>"
  from Cons.prems have "set (write_faults ?w1) \<subseteq> {None}" by simp
  from write_file_no_fault[OF this] obtain w2 where wf: "write_file ?p ?d ?w1 = (Inr (), w2)"
    by blast
  from write_file_Inr(5)[OF wf] Cons.prems have "set (write_faults w2) \<subseteq> {None}" by auto
  from Cons.IH[OF this] wf show ?case by (simp add: Let_def)
qed

lemma chunk_path_inject: "(chunk_path self a = chunk_path self b) = (a = b)"
  by (simp add: chunk_path_def)

lemma split_loop_files:
  assumes "split_loop self uu doc starts acc w = (Inr tfs, w')"
    and "distinct (map uu [draws w..<draws w + length starts])"
  shows "tfs = acc @ map (\<lambda>j. chunk_path self (uu (draws w + j))) [0..<length starts] \<and>
         (\<forall>j<length starts.
            map_of (files w') (chunk_path self (uu (draws w + j))) =
              Some (Pdf (insert_pdf doc (starts ! j)
                (min (starts ! j + nat (chunk_size self)) (length doc) - 1)))) \<and>
         (\<forall>q. q \<notin> (\<lambda>j. chunk_path self (uu (draws w + j))) ` {0..<length starts} \<longrightarrow>
            map_of (files w') q = map_of (files w) q)"
  using assms
proof (induction starts arbitrary: acc w)
  case Nil
  then show ?case by simp
next
  case (Cons start rest)
  let ?p = "chunk_path self (uu (draws w))"
  let ?d = "Pdf (insert_pdf doc start (min (start + nat (chunk_size self)) (length doc) - 1))"
  let ?w1 = "w\<lparr>draws := Suc (draws w)\<rparr>"
  let ?name = "\<lambda>k j. chunk_path self (uu (k + j))"
  obtain r w2 where wf: "write_file ?p ?d ?w1 = (r, w2)" by (cases "write_file ?p ?d ?w1")
  show ?case
  proof (cases r)
    case (Inl e)
    with Cons.prems(1) wf show ?thesis by (simp add: Let_def)
  next
    case (Inr u)
    with Cons.prems(1) wf have rec: "split_loop self uu doc rest (acc @ [?p]) w2 = (Inr tfs, w')"
      by (simp add: Let_def)
    from wf Inr have f2: "files w2 = AList.update ?p ?d (files w)"
      and d2: "draws w2 = Suc (draws w)"
      using write_file_Inr(1,3)[of ?p ?d ?w1 u w2] by simp_all
    have upt: "[draws w..<draws w + length (start # rest)] =
        draws w # [draws w2..<draws w2 + length rest]"
    proof -
      have e: "draws w + length (start # rest) = draws w2 + length rest" by (simp add: d2)
      have "[draws w..<draws w2 + length rest] = draws w # [Suc (draws w)..<draws w2 + length rest]"
        by (rule upt_conv_Cons) (simp add: d2)
      then show ?thesis unfolding e d2[symmetric] .
    qed
    from Cons.prems(2)
    have "distinct (map uu (draws w # [draws w2..<draws w2 + length rest]))"
      by (simp only: upt)
    then have dist: "distinct (map uu [draws w2..<draws w2 + length rest])"
      and fresh: "uu (draws w) \<notin> uu ` {draws w2..<draws w2 + length rest}"
      by simp_all
    from Cons.IH[OF rec dist]
    have names: "tfs = (acc @ [?p]) @ map (?name (draws w2)) [0..<length rest]"
      and look: "\<And>j. j < length rest \<Longrightarrow> map_of (files w') (?name (draws w2) j) =
              Some (Pdf (insert_pdf doc (rest ! j)
                (min (rest ! j + nat (chunk_size self)) (length doc) - 1)))"
      and other: "\<And>q. q \<notin> ?name (draws w2) ` {0..<length rest} \<Longrightarrow>
            map_of (files w') q = map_of (files w2) q"
      by blast+
    have shift: "?name (draws w2) j = ?name (draws w) (Suc j)" for j by (simp add: d2)
    have p_fresh: "?p \<notin> ?name (draws w2) ` {0..<length rest}"
    proof
      assume "?p \<in> ?name (draws w2) ` {0..<length rest}"
      then obtain j where "j < length rest" "?p = ?name (draws w2) j" by auto
      then have "uu (draws w) = uu (draws w2 + j)" by (simp add: chunk_path_inject)
      with \<open>j < length rest\<close> fresh show False by auto
    qed
    have c1: "tfs = acc @ map (?name (draws w)) [0..<length (start # rest)]"
    proof -
      have "map (?name (draws w)) [0..<length (start # rest)] =
          ?p # map (?name (draws w2)) [0..<length rest]"
        by (simp add: upt_conv_Cons map_Suc_upt[symmetric] d2 del: upt_Suc)
      with names show ?thesis by simp
    qed
    have c2: "map_of (files w') (?name (draws w) j) =
              Some (Pdf (insert_pdf doc ((start # rest) ! j)
                (min ((start # rest) ! j + nat (chunk_size self)) (length doc) - 1)))"
      if "j < length (start # rest)" for j
    proof (cases j)
      case 0
      from other[OF p_fresh] have "map_of (files w') ?p = map_of (files w2) ?p" .
      with 0 show ?thesis by (simp add: f2 update_conv')
    next
      case (Suc k)
      with that have "k < length rest" by simp
      from look[OF this] Suc show ?thesis by (simp add: d2)
    qed
    have c3: "map_of (files w') q = map_of (files w) q"
      if "q \<notin> ?name (draws w) ` {0..<length (start # rest)}" for q
    proof -
      from that have "q \<noteq> ?p" by force
      moreover have "q \<notin> ?name (draws w2) ` {0..<length rest}"
      proof
        assume "q \<in> ?name (draws w2) ` {0..<length rest}"
        then obtain j where "j < length rest" "q = ?name (draws w) (Suc j)"
          by (auto simp: d2)
        with that show False by force
      qed
      ultimately show ?thesis using other[of q] by (simp add: f2 update_conv')
    qed
    from c1 c2 c3 show ?thesis by blast
  qed
qed

text \<open>
  Claim C2. For a readable document of \<open>P \<ge> 1\<close> pages and a chunk size \<open>s \<ge> 1\<close>, on a disk
  whose writes do not fail and with chunk names that do not repeat, \<open>_split_pdf\<close> returns
  \<open>ceil(P / s)\<close> distinct chunk paths; afterwards the file at the \<open>i\<close>-th path (counted from
  zero) holds the pages \<open>i * s + 1\<close> to \<open>min ((i + 1) * s) P\<close> of the document, and the files
  were written in this order. The chunks concatenated give the document back (no
  gap, no overlap, original order), every chunk but the last has exactly \<open>s\<close> pages, and
  the last has between \<open>1\<close> and \<open>s\<close>.
\<close>

theorem C2_split_pdf_partition:
  fixes self :: converter and doc :: "page list"
  defines "s \<equiv> nat (chunk_size self)"
  assumes "fitz_open w pdf_path = Inr doc" and "doc \<noteq> []" and "1 \<le> chunk_size self"
    and "set (write_faults w) \<subseteq> {None}"
    and "distinct (map uuid4_hex [draws w..<draws w + (length doc + s - 1) div s])"
  shows "\<exists>temp_files w'.
           split_pdf self uuid4_hex pdf_path w = (Inr temp_files, w') \<and>
           length temp_files = (length doc + s - 1) div s \<and>
           distinct temp_files \<and>
           map (map_of (files w')) temp_files =
             map (\<lambda>i. Some (Pdf (take s (drop (i * s) doc)))) [0..<length temp_files] \<and>
           written w' = written w @ zip temp_files
             (map (\<lambda>i. Pdf (take s (drop (i * s) doc))) [0..<length temp_files]) \<and>
           concat (map (\<lambda>i. take s (drop (i * s) doc)) [0..<length temp_files]) = doc \<and>
           (\<forall>i. Suc i < length temp_files \<longrightarrow> length (take s (drop (i * s) doc)) = s) \<and>
           1 \<le> length (take s (drop ((length temp_files - 1) * s) doc)) \<and>
           length (take s (drop ((length temp_files - 1) * s) doc)) \<le> s"
proof -
  define n where "n = (length doc + s - 1) div s"
  have s: "0 < s" using assms(4) by (simp add: s_def)
  have starts: "py_range0 (length doc) (chunk_size self) = Inr (map (\<lambda>i. i * s) [0..<n])"
    using py_range0_pos[OF assms(4)] by (simp add: s_def n_def)
  have below: "i * s < length doc" if "i < n" for i
    using that ceil_le_iff[OF s, of "length doc" i] by (simp add: n_def)
  have cover: "length doc \<le> n * s"
    using ceil_le_iff[OF s, of "length doc" n] by (simp add: n_def)
  have n_pos: "0 < n"
  proof (rule ccontr)
    assume "\<not> 0 < n"
    with cover have "length doc = 0" by simp
    with assms(3) show False by simp
  qed
  let ?starts = "map (\<lambda>i. i * s) [0..<n]"
  let ?name = "\<lambda>j. chunk_path self (uuid4_hex (draws w + j))"
  from split_loop_no_fault[OF assms(5)] obtain tfs w'
    where run: "split_loop self uuid4_hex doc ?starts [] w = (Inr tfs, w')" by blast
  from split_loop_Inr[OF run] have len: "length tfs = n"
    and wr: "written w' = written w @ zip tfs
             (map (\<lambda>start. Pdf (insert_pdf doc start
                (min (start + nat (chunk_size self)) (length doc) - 1))) ?starts)"
    by auto
  have eq: "map (\<lambda>start. Pdf (insert_pdf doc start
                (min (start + nat (chunk_size self)) (length doc) - 1))) ?starts
        = map (\<lambda>i. Pdf (take s (drop (i * s) doc))) [0..<n]"
    using insert_pdf_slice[OF s below] by (simp add: s_def)
  have wr': "written w' = written w @ zip tfs
             (map (\<lambda>i. Pdf (take s (drop (i * s) doc))) [0..<n])"
    using wr by (simp only: eq)
  have dist: "distinct (map uuid4_hex [draws w..<draws w + length ?starts])"
    using assms(6) by (simp add: n_def)
  from split_loop_files[OF run dist]
  have names: "tfs = map ?name [0..<n]"
    and look: "\<And>j. j < n \<Longrightarrow> map_of (files w') (?name j) =
              Some (Pdf (insert_pdf doc (j * s) (min (j * s + s) (length doc) - 1)))"
    by (simp_all add: s_def)
  have "map (\<lambda>j. uuid4_hex (draws w + j)) [0..<n] = map uuid4_hex [draws w..<draws w + n]"
    by (rule nth_equalityI) simp_all
  with assms(6) have "distinct (map (\<lambda>j. uuid4_hex (draws w + j)) [0..<n])"
    by (simp add: n_def)
  moreover have "inj (chunk_path self)" by (rule injI) (simp add: chunk_path_inject)
  ultimately have "distinct (map (chunk_path self) (map (\<lambda>j. uuid4_hex (draws w + j)) [0..<n]))"
    by (simp only: distinct_map) (auto intro: inj_on_subset)
  then have dt: "distinct tfs" by (simp add: names comp_def)
  have held: "map (map_of (files w')) tfs = map (\<lambda>i. Some (Pdf (take s (drop (i * s) doc)))) [0..<n]"
  proof (rule nth_equalityI)
    show "length (map (map_of (files w')) tfs) =
        length (map (\<lambda>i. Some (Pdf (take s (drop (i * s) doc)))) [0..<n])"
      by (simp add: len)
    fix j assume "j < length (map (map_of (files w')) tfs)"
    then have j: "j < n" by (simp add: len)
    then have "tfs ! j = ?name j" by (simp add: names)
    with look[OF j] insert_pdf_slice[OF s below[OF j]] j len
    show "map (map_of (files w')) tfs ! j =
        map (\<lambda>i. Some (Pdf (take s (drop (i * s) doc)))) [0..<n] ! j"
      by simp
  qed
  have split: "split_pdf self uuid4_hex pdf_path w = (Inr tfs, w')"
    using assms(2) starts run by (simp add: split_pdf_def)
  have cat: "concat (map (\<lambda>i. take s (drop (i * s) doc)) [0..<n]) = doc"
    using cover by (simp add: concat_slices)
  have full: "length (take s (drop (i * s) doc)) = s" if "Suc i < n" for i
  proof -
    from below[OF that] have "i * s + s < length doc" by (simp add: add.commute)
    then show ?thesis by simp
  qed
  have last: "1 \<le> length (take s (drop ((n - 1) * s) doc))"
    using below[of "n - 1"] n_pos s by simp
  show ?thesis
    using split len dt held wr' cat full last
    by (intro exI[of _ tfs] exI[of _ w']) (simp add: n_def)
qed

text \<open>
  The ten-page document with three pages per chunk: four chunk files, holding the pages
  \<open>1-3\<close>, \<open>4-6\<close>, \<open>7-9\<close> and \<open>10\<close>.
\<close>

theorem C2_split_pdf_partition_witness:
  "fitz_open ex_world ''in.pdf'' = Inr [1, 2, 3, 4, 5, 6, 7, 8, 9, 10] \<and>
   1 \<le> chunk_size ex_self \<and> set (write_faults ex_world) \<subseteq> {None} \<and>
   distinct (map ex_uuid4_hex [0..<4]) \<and>
   (\<exists>temp_files w'. split_pdf ex_self ex_uuid4_hex ''in.pdf'' ex_world = (Inr temp_files, w') \<and>
      length temp_files = 4 \<and> distinct temp_files \<and>
      map (map_of (files w')) temp_files =
        [Some (Pdf [1, 2, 3]), Some (Pdf [4, 5, 6]), Some (Pdf [7, 8, 9]), Some (Pdf [10])] \<and>
      map snd (written w') = [Pdf [1, 2, 3], Pdf [4, 5, 6], Pdf [7, 8, 9], Pdf [10]])"
proof -
  let ?doc = "[1, 2, 3, 4, 5, 6, 7, 8, 9, 10] :: page list"
  have h1: "fitz_open ex_world ''in.pdf'' = Inr ?doc"
    by (simp add: fitz_open_def ex_world_def)
  have h2: "?doc \<noteq> []" by simp
  have h3: "1 \<le> chunk_size ex_self" by (simp add: ex_self_def)
  have h4: "set (write_faults ex_world) \<subseteq> {None}" by (simp add: ex_world_def)
  have d: "distinct (map ex_uuid4_hex [0..<4])" by code_simp
  have "[draws ex_world..<draws ex_world +
          (length ?doc + nat (chunk_size ex_self) - 1) div nat (chunk_size ex_self)] = [0..<4]"
    by (simp add: ex_world_def ex_self_def)
  with d have h5: "distinct (map ex_uuid4_hex [draws ex_world..<draws ex_world +
          (length ?doc + nat (chunk_size ex_self) - 1) div nat (chunk_size ex_self)])"
    by (simp only:)
  from C2_split_pdf_partition[OF h1 h2 h3 h4 h5]
  obtain temp_files w' where
    run: "split_pdf ex_self ex_uuid4_hex ''in.pdf'' ex_world = (Inr temp_files, w')"
    and len: "length temp_files = 4"
    and dt: "distinct temp_files"
    and held: "map (map_of (files w')) temp_files =
        map (\<lambda>i. Some (Pdf (take 3 (drop (i * 3) ?doc)))) [0..<length temp_files]"
    and wr: "written w' = written ex_world @ zip temp_files
             (map (\<lambda>i. Pdf (take 3 (drop (i * 3) ?doc))) [0..<length temp_files])"
    by (auto simp: ex_self_def)
  have upt: "[0..<length temp_files] = [0, 1, 2, 3]" using len by (simp add: upt_rec)
  with wr len have w: "map snd (written w') = [Pdf [1, 2, 3], Pdf [4, 5, 6], Pdf [7, 8, 9], Pdf [10]]"
    by (simp add: ex_world_def)
  from held upt have f: "map (map_of (files w')) temp_files =
        [Some (Pdf [1, 2, 3]), Some (Pdf [4, 5, 6]), Some (Pdf [7, 8, 9]), Some (Pdf [10])]"
    by simp
  from h1 h3 h4 d run len dt f w show ?thesis
    by (intro conjI exI[of _ temp_files] exI[of _ w'])
qed

section \<open>The retry loop\<close>

lemma process_loop_index:
  assumes "process_loop self w p i attempts = (Some r, ev)"
  shows "index r = i"
  using assms
proof (induction attempts arbitrary: ev)
  case Nil
  then show ?case by simp
next
  case (Cons a rest)
  obtain res ev0 where at: "attempt_chunk self w p i a = (res, ev0)"
    by (cases "attempt_chunk self w p i a")
  show ?case
  proof (cases res)
    case (Inr body)
    with Cons.prems at show ?thesis by auto
  next
    case (Inl e)
    show ?thesis
    proof (cases "int a = max_retries self - 1")
      case True
      with Cons.prems at Inl show ?thesis by (auto simp: Let_def)
    next
      case False
      obtain r2 ev2 where rec: "process_loop self w p i rest = (r2, ev2)"
        by (cases "process_loop self w p i rest")
      with Cons.prems at Inl False have "r2 = Some r" by (simp add: Let_def)
      with rec Cons.IH show ?thesis by simp
    qed
  qed
qed

lemma process_chunk_index:
  assumes "fst (process_chunk self w p i) = Some r"
  shows "index r = i"
  using assms process_loop_index[of self w p i "py_range (max_retries self)" r]
  by (cases "process_chunk self w p i") (simp add: process_chunk_def)

lemma process_loop_returns:
  assumes "int n = max_retries self" and "k < n"
  shows "\<exists>r. fst (process_loop self w p i [k..<n]) = Some r"
  using assms(2)
proof (induction "n - k" arbitrary: k)
  case 0
  then show ?case by simp
next
  case (Suc m)
  then have upt: "[k..<n] = k # [Suc k..<n]" by (simp add: upt_conv_Cons)
  obtain res ev0 where at: "attempt_chunk self w p i k = (res, ev0)"
    by (cases "attempt_chunk self w p i k")
  show ?case
  proof (cases res)
    case (Inr body)
    with at upt show ?thesis by simp
  next
    case (Inl e)
    show ?thesis
    proof (cases "int k = max_retries self - 1")
      case True
      with at Inl upt show ?thesis by (simp add: Let_def)
    next
      case False
      with assms(1) Suc.prems have lt: "Suc k < n" by auto
      with Suc.hyps have "\<exists>r. fst (process_loop self w p i [Suc k..<n]) = Some r"
        by (intro Suc.hyps(1)) auto
      with at Inl upt False show ?thesis
        by (auto simp: Let_def split: prod.splits)
    qed
  qed
qed

lemma process_chunk_returns:
  assumes "1 \<le> max_retries self"
  shows "\<exists>r. fst (process_chunk self w p i) = Some r"
proof -
  have "int (nat (max_retries self)) = max_retries self" "0 < nat (max_retries self)"
    using assms by simp_all
  from process_loop_returns[OF this] show ?thesis
    by (simp add: process_chunk_def py_range_def)
qed

lemma process_loop_all_fail:
  assumes "int n = max_retries self"
    and "\<And>a. a < n \<Longrightarrow> attempt_chunk self w p i a = (Inl (err a), ev a)"
    and "k < n"
  shows "process_loop self w p i [k..<n] =
           (Some \<lparr>index = i, content = failure_content (err (n - 1)), success = False\<rparr>,
            concat (map (\<lambda>a. ev a @ [Sleep (2 ^ a)]) [k..<n]))"
  using assms(3)
proof (induction "n - k" arbitrary: k)
  case 0
  then show ?case by simp
next
  case (Suc m)
  then have upt: "[k..<n] = k # [Suc k..<n]" by (simp add: upt_conv_Cons)
  have at: "attempt_chunk self w p i k = (Inl (err k), ev k)" using assms(2) Suc.prems by simp
  show ?case
  proof (cases "int k = max_retries self - 1")
    case True
    with assms(1) have "k = n - 1" "[Suc k..<n] = []" by auto
    with at upt True show ?thesis by (simp add: Let_def)
  next
    case False
    with assms(1) Suc.prems have lt: "Suc k < n" by auto
    with Suc.hyps have "process_loop self w p i [Suc k..<n] =
           (Some \<lparr>index = i, content = failure_content (err (n - 1)), success = False\<rparr>,
            concat (map (\<lambda>a. ev a @ [Sleep (2 ^ a)]) [Suc k..<n]))"
      by (intro Suc.hyps(1)) auto
    with at upt False show ?thesis by (simp add: Let_def)
  qed
qed

lemma attempt_chunk_pdf:
  assumes "map_of (files w) p = Some (Pdf ps)"
  shows "attempt_chunk self w p i a =
           (model self i a \<lparr>mime_type = ''application/pdf'', data = Pdf ps\<rparr>, [Request i a])"
  using assms by (simp add: attempt_chunk_def read_pdf_file_def fitz_open_def)

text \<open>
  Claim C3. With \<open>max_retries = 3\<close> and a remote model that fails on every call,
  \<open>_process_chunk\<close> makes exactly three requests and sleeps \<open>2^0\<close> and \<open>2^1\<close> seconds before
  the second and the third. The run below shows these, and shows one more call of
  \<open>time.sleep\<close>, of \<open>2^2\<close> seconds, after the third and last attempt has failed: the
  \<open>except\<close> branch sleeps before it looks whether an attempt is left.
\<close>

theorem C3_sleeps_after_last_attempt:
  "process_chunk ex_failing_self ex_chunk_world ''temp/chunk_a.pdf'' 0 =
     (Some \<lparr>index = 0, content = failure_content ''timeout 2'', success = False\<rparr>,
      [Request 0 0, Sleep 1, Request 0 1, Sleep 2, Request 0 2, Sleep 4])"
  by code_simp

text \<open>
  Claim C5. Every call of \<open>_process_chunk\<close> is to yield one result, for every
  \<open>max_retries \<ge> 0\<close>. With \<open>max_retries = 0\<close> the loop body never runs and the call
  yields \<open>None\<close>, no result; the collection then holds no index at all and sorting it
  raises, in sequential and in parallel mode alike.
\<close>

theorem C5_no_result_without_attempts:
  "fst (process_chunk ex_no_retry_self ex_chunk_world ''temp/chunk_a.pdf'' 0) = None \<and>
   fst (convert_to_markdown ex_no_retry_self ex_uuid4_hex [] ''in.pdf'' False ex_world) =
     Inl (msg_convert_failed @ py_repr ''NoneType'' @ '' object is not subscriptable'') \<and>
   fst (convert_to_markdown ex_no_retry_self ex_uuid4_hex [] ''in.pdf'' True ex_world) =
     Inl (msg_convert_failed @ py_repr ''NoneType'' @ '' object is not subscriptable'')"
  by code_simp

section \<open>Collecting and sorting the results\<close>

lemma those_None_iff: "(those xs = None) = (None \<in> set xs)"
  by (induction xs) (auto split: option.splits)

lemma those_Some_iff: "(those xs = Some ys) = (xs = map Some ys)"
  by (induction xs arbitrary: ys) (auto split: option.splits)

lemma mset_as_completed: "mset (as_completed sched fs) = mset fs"
proof (induction sched fs rule: as_completed.induct)
  case (1 sched)
  show ?case by simp
next
  case (2 sched f fs)
  define k where "k = (case sched of [] \<Rightarrow> 0 | s # ss \<Rightarrow> s mod Suc (length fs))"
  define pending where "pending = f # fs"
  have k: "k < length pending" by (auto simp: k_def pending_def split: list.splits)
  have step: "as_completed sched pending =
      pending ! k # as_completed (tl sched) (take k pending @ drop (Suc k) pending)"
    unfolding pending_def k_def by (simp only: as_completed.simps Let_def)
  have ih: "mset (as_completed (tl sched) (take k pending @ drop (Suc k) pending))
          = mset (take k pending @ drop (Suc k) pending)"
    using 2 unfolding pending_def k_def by blast
  have "pending = take k pending @ pending ! k # drop (Suc k) pending"
    using k by (rule id_take_nth_drop)
  then have "mset pending = mset (take k pending @ pending ! k # drop (Suc k) pending)"
    by simp
  also have "\<dots> = add_mset (pending ! k) (mset (take k pending @ drop (Suc k) pending))"
    by simp
  finally have "mset (as_completed sched pending) = mset pending"
    using step ih by simp
  then show ?case by (simp only: pending_def)
qed

lemma filter_key_single:
  assumes "distinct (map f xs)" and "k \<in> set xs"
  shows "filter (\<lambda>x. f k = f x) xs = [k]"
  using assms
proof (induction xs)
  case Nil
  then show ?case by simp
next
  case (Cons x xs)
  show ?case
  proof (cases "k = x")
    case True
    have "filter (\<lambda>y. f x = f y) xs = []"
      using Cons.prems(1) by (auto simp: filter_empty_conv)
    with True show ?thesis by simp
  next
    case False
    with Cons.prems have k: "k \<in> set xs" by simp
    then have "f k \<in> f ` set xs" by simp
    with Cons.prems(1) have "f k \<noteq> f x" by auto
    with Cons k show ?thesis by simp
  qed
qed

lemma sort_key_unique:
  assumes "mset xs = mset ys" and "distinct (map f ys)" and "sorted (map f ys)"
  shows "sort_key f xs = ys"
proof (rule properties_for_sort_key)
  show "mset ys = mset xs" using assms(1) by simp
  show "sorted (map f ys)" by (rule assms(3))
  fix k assume k: "k \<in> set ys"
  have "mset (map f xs) = mset (map f ys)" using assms(1) by simp
  then have dx: "distinct (map f xs)" using assms(2) by (metis distinct_count_atmost_1 set_mset_mset)
  have "k \<in> set xs" using k assms(1) by (metis set_mset_mset)
  with dx have "filter (\<lambda>x. f k = f x) xs = [k]" by (rule filter_key_single)
  moreover have "filter (\<lambda>x. f k = f x) ys = [k]" using assms(2) k by (rule filter_key_single)
  ultimately show "filter (\<lambda>x. f k = f x) ys = filter (\<lambda>x. f k = f x) xs" by simp
qed

lemma sort_results_permuted:
  assumes "mset fs' = mset fs"
    and "\<And>j r. j < length fs \<Longrightarrow> fs ! j = Some r \<Longrightarrow> index r = j"
  shows "sort_results fs' = sort_results fs"
proof (cases "those fs")
  case None
  then have "None \<in> set fs" by (simp add: those_None_iff)
  then have "None \<in> set fs'" using assms(1) by (metis set_mset_mset)
  then have "those fs' = None" by (simp add: those_None_iff)
  with None show ?thesis by (simp add: sort_results_def)
next
  case (Some rs)
  then have fs: "fs = map Some rs" by (simp add: those_Some_iff)
  have "those fs' \<noteq> None"
  proof
    assume "those fs' = None"
    then have "None \<in> set fs'" by (simp add: those_None_iff)
    then have "None \<in> set fs" using assms(1) by (metis set_mset_mset)
    with fs show False by auto
  qed
  then obtain rs' where Some': "those fs' = Some rs'" by auto
  then have fs': "fs' = map Some rs'" by (simp add: those_Some_iff)
  have "image_mset Some (mset rs') = image_mset Some (mset rs)"
    using assms(1) fs fs' by simp
  moreover have "inj (image_mset (Some :: chunk_result \<Rightarrow> chunk_result option))"
    by (rule multiset.inj_map) simp
  ultimately have perm: "mset rs' = mset rs" by (rule injD[rotated])
  have "map index rs = [0..<length rs]"
  proof (rule nth_equalityI)
    show "length (map index rs) = length [0..<length rs]" by simp
    fix j assume "j < length (map index rs)"
    then have j: "j < length rs" by simp
    then have "fs ! j = Some (rs ! j)" using fs by simp
    with assms(2)[of j "rs ! j"] j fs have "index (rs ! j) = j" by simp
    with j show "map index rs ! j = [0..<length rs] ! j" by simp
  qed
  then have ds: "distinct (map index rs)" "sorted (map index rs)" by simp_all
  have "sort_key index rs' = rs" using perm ds by (rule sort_key_unique)
  moreover have "sort_key index rs = rs" using refl ds by (rule sort_key_unique)
  ultimately show ?thesis using Some Some' by (simp add: sort_results_def)
qed

lemma futures_eq:
  "map (\<lambda>(idx, temp_file). fst (process_chunk self w temp_file idx)) (List.enumerate 0 tfs)
     = map (\<lambda>j. fst (process_chunk self w (tfs ! j) j)) [0..<length tfs]"
  by (rule nth_equalityI) (simp_all add: nth_enumerate_eq)

lemma sort_results_dispatch:
  "sort_results (dispatch self sched parallel w tfs)
     = sort_results (map (\<lambda>j. fst (process_chunk self w (tfs ! j) j)) [0..<length tfs])"
proof -
  let ?fs = "map (\<lambda>j. fst (process_chunk self w (tfs ! j) j)) [0..<length tfs]"
  have ix: "index r = j" if "j < length ?fs" "?fs ! j = Some r" for j r
    using that by (simp add: process_chunk_index)
  have "sort_results (as_completed sched ?fs) = sort_results ?fs"
    using mset_as_completed ix by (rule sort_results_permuted)
  then show ?thesis by (simp add: dispatch_def futures_eq Let_def)
qed

lemma convert_body_mode:
  "convert_body self uu sched pdf_path parallel w = convert_body self uu sched' pdf_path parallel' w"
proof -
  obtain r w1 where sp: "split_pdf self uu pdf_path w = (r, w1)"
    by (cases "split_pdf self uu pdf_path w")
  show ?thesis
  proof (cases r)
    case (Inl e)
    with sp show ?thesis by (simp add: convert_body_def)
  next
    case (Inr tfs)
    with sp show ?thesis by (simp add: convert_body_def Let_def sort_results_dispatch)
  qed
qed

lemma convert_mode:
  "convert_to_markdown self uu sched pdf_path parallel w
     = convert_to_markdown self uu sched' pdf_path parallel' w"
  by (simp add: convert_to_markdown_def convert_body_mode[of self uu sched pdf_path parallel w sched' parallel'])

lemma sort_results_all_returned:
  assumes "1 \<le> max_retries self"
  shows "sort_results (map (\<lambda>j. fst (process_chunk self w (tfs ! j) j)) [0..<length tfs])
           = Inr (map (\<lambda>j. the (fst (process_chunk self w (tfs ! j) j))) [0..<length tfs])"
proof -
  let ?rs = "map (\<lambda>j. the (fst (process_chunk self w (tfs ! j) j))) [0..<length tfs]"
  have some: "fst (process_chunk self w p j) = Some (the (fst (process_chunk self w p j)))" for p j
    using process_chunk_returns[OF assms, of w p j] by auto
  then have "map (\<lambda>j. fst (process_chunk self w (tfs ! j) j)) [0..<length tfs] = map Some ?rs"
    by simp
  then have th: "those (map (\<lambda>j. fst (process_chunk self w (tfs ! j) j)) [0..<length tfs]) = Some ?rs"
    by (simp only: those_Some_iff)
  have "map index ?rs = [0..<length tfs]"
  proof (rule nth_equalityI)
    show "length (map index ?rs) = length [0..<length tfs]" by simp
    fix j assume "j < length (map index ?rs)"
    then have j: "j < length tfs" by simp
    from some[of "tfs ! j" j] have "index (the (fst (process_chunk self w (tfs ! j) j))) = j"
      by (intro process_chunk_index) simp
    with j show "map index ?rs ! j = [0..<length tfs] ! j" by simp
  qed
  then have "distinct (map index ?rs)" "sorted (map index ?rs)" by simp_all
  with refl have "sort_key index ?rs = ?rs" by (rule sort_key_unique)
  with th show ?thesis by (simp add: sort_results_def)
qed

lemma convert_body_returns:
  assumes "1 \<le> max_retries self" and "split_pdf self uu pdf_path w = (Inr tfs, w1)"
    and "tfs \<noteq> []"
  shows "convert_body self uu sched pdf_path parallel w =
           (Inr (py_join blank_line
              (map (\<lambda>j. content (the (fst (process_chunk self w1 (tfs ! j) j)))) [0..<length tfs])),
            tfs, w1)"
  using assms(2,3)
  by (simp add: convert_body_def Let_def sort_results_dispatch
        sort_results_all_returned[OF assms(1)] comp_def)

section \<open>Assembly of the results\<close>

lemma mset_dispatch:
  "mset (dispatch self sched parallel w tfs)
     = mset (map (\<lambda>j. fst (process_chunk self w (tfs ! j) j)) [0..<length tfs])"
  by (simp add: dispatch_def Let_def futures_eq mset_as_completed del: mset_map)

lemma sort_results_reordered:
  assumes "mset fs' = mset (dispatch self sched parallel w tfs)"
  shows "sort_results fs' = sort_results (dispatch self sched parallel w tfs)"
proof -
  let ?fs = "map (\<lambda>j. fst (process_chunk self w (tfs ! j) j)) [0..<length tfs]"
  have ix: "index r = j" if "j < length ?fs" "?fs ! j = Some r" for j r
    using that by (simp add: process_chunk_index)
  have "mset fs' = mset ?fs" using assms by (simp only: mset_dispatch)
  then have "sort_results fs' = sort_results ?fs" using ix by (rule sort_results_permuted)
  then show ?thesis by (simp only: sort_results_dispatch)
qed

text \<open>
  Claim C1. Whenever \<open>convert_to_markdown\<close> returns a text, the results it collected (in
  whatever order the chunk jobs completed) all exist, and the text is their \<open>content\<close>
  fields, sorted by \<open>index\<close> ascending and joined with a blank line. Any other arrangement
  of the same results gives the same text, and so does every other completion order.
\<close>

theorem C1_sorted_join:
  assumes "split_pdf self uuid4_hex pdf_path w = (Inr temp_files, w1)"
    and "convert_to_markdown self uuid4_hex sched pdf_path parallel w = (Inr md, w')"
  shows "\<exists>rs. dispatch self sched parallel w1 temp_files = map Some rs \<and>
           md = py_join blank_line (map content (sort_key index rs)) \<and>
           (\<forall>rs'. mset rs' = mset rs \<longrightarrow>
                  py_join blank_line (map content (sort_key index rs')) = md) \<and>
           (\<forall>sched'. convert_to_markdown self uuid4_hex sched' pdf_path parallel w = (Inr md, w'))"
proof -
  let ?results = "dispatch self sched parallel w1 temp_files"
  from assms obtain sorted_results where
    sr: "sort_results ?results = Inr sorted_results"
    and md: "md = py_join blank_line (map content sorted_results)"
    by (auto simp: convert_to_markdown_def convert_body_def Let_def
             split: sum.splits if_splits prod.splits)
  from sr obtain rs where th: "those ?results = Some rs" and so: "sorted_results = sort_key index rs"
    by (auto simp: sort_results_def split: option.splits)
  from th have res: "?results = map Some rs" by (simp add: those_Some_iff)
  have reorder: "py_join blank_line (map content (sort_key index rs')) = md"
    if "mset rs' = mset rs" for rs'
  proof -
    from that res have "mset (map Some rs') = mset ?results" by simp
    then have "sort_results (map Some rs') = sort_results ?results" by (rule sort_results_reordered)
    moreover have "those (map Some rs') = Some rs'" by (simp add: those_Some_iff)
    ultimately have "sort_key index rs' = sorted_results" using sr by (simp add: sort_results_def)
    with md show ?thesis by simp
  qed
  have "convert_to_markdown self uuid4_hex sched' pdf_path parallel w = (Inr md, w')" for sched'
    using assms(2) convert_mode[of self uuid4_hex sched' pdf_path parallel w sched parallel] by simp
  with res md so reorder show ?thesis by blast
qed

text \<open>
  Five chunks with contents \<open>A\<close> to \<open>E\<close>, completing in the order 3, 0, 4, 2, 1: the text
  is \<open>A\<close> to \<open>E\<close> in order, under this and under every schedule.
\<close>

theorem C1_sorted_join_witness:
  "fst (split_pdf ex_letter_self ex_uuid4_hex ''in.pdf'' ex_world5) =
     Inr [''temp/chunk_a.pdf'', ''temp/chunk_aa.pdf'', ''temp/chunk_aaa.pdf'',
          ''temp/chunk_aaaa.pdf'', ''temp/chunk_aaaaa.pdf''] \<and>
   dispatch ex_letter_self [3, 0, 2, 1] True
       (snd (split_pdf ex_letter_self ex_uuid4_hex ''in.pdf'' ex_world5))
       [''temp/chunk_a.pdf'', ''temp/chunk_aa.pdf'', ''temp/chunk_aaa.pdf'',
        ''temp/chunk_aaaa.pdf'', ''temp/chunk_aaaaa.pdf''] =
     map Some [\<lparr>index = 3, content = ''D'', success = True\<rparr>,
               \<lparr>index = 0, content = ''A'', success = True\<rparr>,
               \<lparr>index = 4, content = ''E'', success = True\<rparr>,
               \<lparr>index = 2, content = ''C'', success = True\<rparr>,
               \<lparr>index = 1, content = ''B'', success = True\<rparr>] \<and>
   fst (convert_to_markdown ex_letter_self ex_uuid4_hex [3, 0, 2, 1] ''in.pdf'' True ex_world5) =
     Inr (''A'' @ blank_line @ ''B'' @ blank_line @ ''C'' @ blank_line @ ''D'' @ blank_line @ ''E'') \<and>
   (\<forall>sched'.
      fst (convert_to_markdown ex_letter_self ex_uuid4_hex sched' ''in.pdf'' True ex_world5) =
        Inr (''A'' @ blank_line @ ''B'' @ blank_line @ ''C'' @ blank_line @ ''D'' @ blank_line @ ''E''))"
proof -
  let ?tfs = "[''temp/chunk_a.pdf'', ''temp/chunk_aa.pdf'', ''temp/chunk_aaa.pdf'',
          ''temp/chunk_aaaa.pdf'', ''temp/chunk_aaaaa.pdf'']"
  let ?md = "''A'' @ blank_line @ ''B'' @ blank_line @ ''C'' @ blank_line @ ''D'' @ blank_line @ ''E''"
  have s: "fst (split_pdf ex_letter_self ex_uuid4_hex ''in.pdf'' ex_world5) = Inr ?tfs"
    by code_simp
  then have h1: "split_pdf ex_letter_self ex_uuid4_hex ''in.pdf'' ex_world5 =
      (Inr ?tfs, snd (split_pdf ex_letter_self ex_uuid4_hex ''in.pdf'' ex_world5))"
    by (simp add: prod_eq_iff)
  have c: "fst (convert_to_markdown ex_letter_self ex_uuid4_hex [3, 0, 2, 1] ''in.pdf'' True ex_world5)
      = Inr ?md"
    by code_simp
  then obtain w' where h2:
    "convert_to_markdown ex_letter_self ex_uuid4_hex [3, 0, 2, 1] ''in.pdf'' True ex_world5 = (Inr ?md, w')"
    by (cases "convert_to_markdown ex_letter_self ex_uuid4_hex [3, 0, 2, 1] ''in.pdf'' True ex_world5")
       (simp only: fst_conv)
  have d: "dispatch ex_letter_self [3, 0, 2, 1] True
       (snd (split_pdf ex_letter_self ex_uuid4_hex ''in.pdf'' ex_world5)) ?tfs =
     map Some [\<lparr>index = 3, content = ''D'', success = True\<rparr>,
               \<lparr>index = 0, content = ''A'', success = True\<rparr>,
               \<lparr>index = 4, content = ''E'', success = True\<rparr>,
               \<lparr>index = 2, content = ''C'', success = True\<rparr>,
               \<lparr>index = 1, content = ''B'', success = True\<rparr>]"
    by code_simp
  from C1_sorted_join[OF h1 h2] have
    "\<forall>sched'. convert_to_markdown ex_letter_self ex_uuid4_hex sched' ''in.pdf'' True ex_world5 =
      (Inr ?md, w')"
    by blast
  then have a: "\<forall>sched'. fst (convert_to_markdown ex_letter_self ex_uuid4_hex sched' ''in.pdf'' True ex_world5)
       = Inr ?md"
    by (simp only: fst_conv simp_thms)
  from s d c a show ?thesis by (intro conjI)
qed

text \<open>
  Claim C7. For the same converter (hence the same outcome of every model call, chunk by
  chunk and attempt by attempt), document and world, \<open>convert_to_markdown\<close> with
  \<open>parallel=True\<close>, under any completion order, and with \<open>parallel=False\<close> give the same
  outcome: the same text or the same error, and the same files left behind.
\<close>

theorem C7_modes_agree:
  "convert_to_markdown self uuid4_hex sched pdf_path True w
     = convert_to_markdown self uuid4_hex sched' pdf_path False w"
  by (rule convert_mode)

text \<open>
  The ten-page document, three pages per chunk, a model answering \<open>chunk{index}\<close>: both
  modes give \<open>chunk0\<close>, \<open>chunk1\<close>, \<open>chunk2\<close>, \<open>chunk3\<close> separated by blank lines.
\<close>

theorem C7_modes_agree_witness:
  "convert_to_markdown ex_self ex_uuid4_hex [3, 1, 0] ''in.pdf'' True ex_world
     = convert_to_markdown ex_self ex_uuid4_hex [] ''in.pdf'' False ex_world \<and>
   fst (convert_to_markdown ex_self ex_uuid4_hex [] ''in.pdf'' False ex_world)
     = Inr (''chunk0'' @ blank_line @ ''chunk1'' @ blank_line @ ''chunk2'' @ blank_line @ ''chunk3'')"
proof
  show "convert_to_markdown ex_self ex_uuid4_hex [3, 1, 0] ''in.pdf'' True ex_world
     = convert_to_markdown ex_self ex_uuid4_hex [] ''in.pdf'' False ex_world"
    by (rule C7_modes_agree)
  show "fst (convert_to_markdown ex_self ex_uuid4_hex [] ''in.pdf'' False ex_world)
     = Inr (''chunk0'' @ blank_line @ ''chunk1'' @ blank_line @ ''chunk2'' @ blank_line @ ''chunk3'')"
    by code_simp
qed

section \<open>A document without pages\<close>

text \<open>
  Claim C10. For a readable source document with zero pages (and a chunk size other than
  zero), \<open>_split_pdf\<close> creates no chunk and changes nothing, and \<open>convert_to_markdown\<close> does
  not return the empty text: the success ratio divides by the chunk count, zero, and the
  call raises the wrapped conversion error carrying \<open>division by zero\<close>.
\<close>

theorem C10_zero_pages_raises:
  assumes "map_of (files w) pdf_path = Some (Pdf [])" and "chunk_size self \<noteq> 0"
  shows "split_pdf self uuid4_hex pdf_path w = (Inr [], w) \<and>
         convert_to_markdown self uuid4_hex sched pdf_path parallel w =
           (Inl (msg_convert_failed @ ''division by zero''), w)"
proof -
  have op: "fitz_open w pdf_path = Inr []" using assms(1) by (simp add: fitz_open_def)
  have "range_from 0 0 (nat (chunk_size self)) = []" by (subst range_from.simps) simp
  then have "py_range0 0 (chunk_size self) = Inr []" using assms(2) by (simp add: py_range0_def)
  with op have sp: "split_pdf self uuid4_hex pdf_path w = (Inr [], w)"
    by (simp add: split_pdf_def)
  have "dispatch self sched parallel w [] = []"
    by (simp add: dispatch_def enumerate_eq_zip)
  then have "sort_results (dispatch self sched parallel w []) = Inr []"
    by (simp add: sort_results_def)
  with sp have "convert_body self uuid4_hex sched pdf_path parallel w =
      (Inl ''division by zero'', [], w)"
    by (simp add: convert_body_def)
  with sp show ?thesis by (simp add: convert_to_markdown_def)
qed

theorem C10_zero_pages_raises_witness:
  "map_of (files ex_empty_world) ''empty.pdf'' = Some (Pdf []) \<and> chunk_size ex_self \<noteq> 0 \<and>
   split_pdf ex_self ex_uuid4_hex ''empty.pdf'' ex_empty_world = (Inr [], ex_empty_world) \<and>
   convert_to_markdown ex_self ex_uuid4_hex [] ''empty.pdf'' True ex_empty_world =
     (Inl (msg_convert_failed @ ''division by zero''), ex_empty_world)"
proof -
  have h1: "map_of (files ex_empty_world) ''empty.pdf'' = Some (Pdf [])"
    by (simp add: ex_empty_world_def)
  have h2: "chunk_size ex_self \<noteq> 0" by (simp add: ex_self_def)
  from C10_zero_pages_raises[OF h1 h2, of ex_uuid4_hex "[]" True] h1 h2
  show ?thesis by (intro conjI) blast+
qed

section \<open>Saving\<close>

text \<open>
  Claim C9. Two calls of \<open>save_markdown\<close> with the same text and destination, both
  returning: after the first call and after the second the destination holds exactly that
  text, whatever it held before; the second call leaves the file system as the first left
  it, and no other path is touched.
\<close>

theorem C9_save_twice:
  assumes "save_markdown markdown_text output_path w = (Inr u1, w1)"
    and "save_markdown markdown_text output_path w1 = (Inr u2, w2)"
  shows "map_of (files w1) output_path = Some (Text markdown_text) \<and>
         map_of (files w2) output_path = Some (Text markdown_text) \<and>
         files w2 = files w1 \<and>
         (\<forall>q. q \<noteq> output_path \<longrightarrow> map_of (files w2) q = map_of (files w) q)"
proof -
  from assms(1) have "write_file output_path (Text markdown_text) w = (Inr (), w1)"
    by (auto simp: save_markdown_def split: prod.splits sum.splits)
  then have f1: "files w1 = AList.update output_path (Text markdown_text) (files w)"
    by (rule write_file_Inr(1))
  from assms(2) have "write_file output_path (Text markdown_text) w1 = (Inr (), w2)"
    by (auto simp: save_markdown_def split: prod.splits sum.splits)
  then have f2: "files w2 = AList.update output_path (Text markdown_text) (files w1)"
    by (rule write_file_Inr(1))
  from f1 f2 show ?thesis by (simp add: update_conv')
qed

theorem C9_save_twice_witness:
  "save_markdown ''new text'' ''out.md'' ex_saved_world =
     (Inr (), ex_saved_world\<lparr>files := [(''out.md'', Text ''new text'')],
                             written := [(''out.md'', Text ''new text'')]\<rparr>) \<and>
   save_markdown ''new text'' ''out.md''
       (ex_saved_world\<lparr>files := [(''out.md'', Text ''new text'')],
                       written := [(''out.md'', Text ''new text'')]\<rparr>) =
     (Inr (), ex_saved_world\<lparr>files := [(''out.md'', Text ''new text'')],
                written := [(''out.md'', Text ''new text''), (''out.md'', Text ''new text'')]\<rparr>) \<and>
   map_of (files (ex_saved_world\<lparr>files := [(''out.md'', Text ''new text'')],
                written := [(''out.md'', Text ''new text''), (''out.md'', Text ''new text'')]\<rparr>))
      ''out.md'' = Some (Text ''new text'')"
proof -
  let ?w1 = "ex_saved_world\<lparr>files := [(''out.md'', Text ''new text'')],
                             written := [(''out.md'', Text ''new text'')]\<rparr>"
  let ?w2 = "ex_saved_world\<lparr>files := [(''out.md'', Text ''new text'')],
                written := [(''out.md'', Text ''new text''), (''out.md'', Text ''new text'')]\<rparr>"
  have h1: "save_markdown ''new text'' ''out.md'' ex_saved_world = (Inr (), ?w1)"
    by code_simp
  have h2: "save_markdown ''new text'' ''out.md'' ?w1 = (Inr (), ?w2)"
    by code_simp
  from C9_save_twice[OF h1 h2] have "map_of (files ?w2) ''out.md'' = Some (Text ''new text'')"
    by blast
  with h1 h2 show ?thesis by (intro conjI)
qed

section \<open>Cleanup\<close>

lemma os_remove_written: "written (snd (os_remove p w)) = written w"
  by (simp add: os_remove_def split: list.splits option.splits)

lemma os_remove_absent:
  assumes "\<not> exists_path w q"
  shows "\<not> exists_path (snd (os_remove p w)) q"
  using assms
  by (auto simp: os_remove_def exists_path_def delete_conv' split: list.splits option.splits)

lemma cleanup_Cons:
  "cleanup (p # tfs) w =
     (if exists_path w p then cleanup tfs (snd (os_remove p w)) else cleanup tfs w)"
  by (simp split: prod.splits)

lemma cleanup_written: "written (cleanup tfs w) = written w"
proof (induction tfs arbitrary: w)
  case Nil
  show ?case by simp
next
  case (Cons p tfs)
  show ?case
    using Cons[of "snd (os_remove p w)"] Cons[of w] os_remove_written[of p w]
    by (simp add: cleanup_Cons del: cleanup.simps)
qed

lemma cleanup_absent:
  assumes "\<not> exists_path w q"
  shows "\<not> exists_path (cleanup tfs w) q"
  using assms
proof (induction tfs arbitrary: w)
  case Nil
  then show ?case by simp
next
  case (Cons p tfs)
  from Cons.prems have "\<not> exists_path (snd (os_remove p w)) q" by (rule os_remove_absent)
  with Cons show ?case by (simp add: cleanup_Cons del: cleanup.simps)
qed

lemma cleanup_removes:
  assumes "set (remove_faults w) \<subseteq> {None}" and "p \<in> set tfs"
  shows "\<not> exists_path (cleanup tfs w) p"
  using assms
proof (induction tfs arbitrary: w)
  case Nil
  then show ?case by simp
next
  case (Cons t tfs)
  from os_remove_no_fault[OF Cons.prems(1), of t] obtain w1 where
    rm: "os_remove t w = (Inr (), w1)" and f1: "files w1 = AList.delete t (files w)"
    and r1: "set (remove_faults w1) \<subseteq> {None}" by blast
  show ?case
  proof (cases "exists_path w t")
    case True
    then have step: "cleanup (t # tfs) w = cleanup tfs w1" using rm by simp
    show ?thesis
    proof (cases "p = t")
      case True
      have "\<not> exists_path w1 t" using f1 by (simp add: exists_path_def delete_conv')
      then show ?thesis using step True cleanup_absent by simp
    next
      case False
      with Cons.prems(2) have "p \<in> set tfs" by simp
      with Cons.IH[OF r1] step show ?thesis by simp
    qed
  next
    case False
    then have step: "cleanup (t # tfs) w = cleanup tfs w" by simp
    show ?thesis
    proof (cases "p = t")
      case True
      with False step cleanup_absent show ?thesis by simp
    next
      case pt: False
      with Cons.prems(2) have "p \<in> set tfs" by simp
      with Cons.IH[OF Cons.prems(1)] step show ?thesis by simp
    qed
  qed
qed

section \<open>How the try block is left\<close>

lemma split_loop_Inl:
  assumes "split_loop self uu doc starts acc w = (Inl e, w')"
  shows "Some e \<in> set (write_faults w)"
  using assms
proof (induction starts arbitrary: acc w)
  case Nil
  then show ?case by simp
next
  case (Cons start rest)
  let ?p = "chunk_path self (uu (draws w))"
  let ?d = "Pdf (insert_pdf doc start (min (start + nat (chunk_size self)) (length doc) - 1))"
  let ?w1 = "w\<lparr>draws := Suc (draws w)\<rparr>"
  obtain r w2 where wf: "write_file ?p ?d ?w1 = (r, w2)" by (cases "write_file ?p ?d ?w1")
  show ?case
  proof (cases r)
    case (Inl e')
    with Cons.prems wf have "e' = e" by (simp add: Let_def)
    with wf Inl write_file_Inl(3)[of ?p ?d ?w1 e w2] show ?thesis by simp
  next
    case (Inr u)
    with Cons.prems wf have "split_loop self uu doc rest (acc @ [?p]) w2 = (Inl e, w')"
      by (simp add: Let_def)
    from Cons.IH[OF this] have "Some e \<in> set (write_faults w2)" .
    with write_file_Inr(5)[of ?p ?d ?w1 u w2] wf Inr show ?thesis by auto
  qed
qed

lemma split_pdf_Inl:
  assumes "split_pdf self uu pdf_path w = (Inl e, w1)"
  shows "e = fitz_no_file pdf_path \<or> e = fitz_bad_file pdf_path \<or>
         e = ''range() arg 3 must not be zero'' \<or> Some e \<in> set (write_faults w)"
proof (cases "fitz_open w pdf_path")
  case (Inl e')
  with assms have "e' = e" by (simp add: split_pdf_def)
  with Inl show ?thesis
    by (auto simp: fitz_open_def split: option.splits disk_file.splits)
next
  case (Inr doc)
  show ?thesis
  proof (cases "py_range0 (length doc) (chunk_size self)")
    case (Inl e')
    with assms Inr have "e' = e" by (simp add: split_pdf_def)
    with Inl show ?thesis by (auto simp: py_range0_def split: if_splits)
  next
    case starts: (Inr starts)
    with assms Inr have "split_loop self uu doc starts [] w = (Inl e, w1)"
      by (simp add: split_pdf_def)
    then show ?thesis using split_loop_Inl by blast
  qed
qed

lemma convert_body_split_Inl:
  assumes "split_pdf self uu pdf_path w = (Inl e, w1)"
  shows "convert_body self uu sched pdf_path parallel w = (Inl e, [], w1)"
  using assms by (simp add: convert_body_def)

lemma convert_body_split_Inr:
  assumes "split_pdf self uu pdf_path w = (Inr tfs, w1)"
  shows "\<exists>r. convert_body self uu sched pdf_path parallel w = (r, tfs, w1) \<and>
           (\<forall>e. r = Inl e \<longrightarrow> e = py_repr ''NoneType'' @ '' object is not subscriptable'' \<or>
                                e = ''division by zero'')"
  using assms
  by (auto simp: convert_body_def Let_def sort_results_def split: sum.splits option.splits)

section \<open>Chunk files after the run\<close>

lemma split_pdf_Inr:
  assumes "split_pdf self uu pdf_path w = (Inr tfs, w1)"
  shows "\<exists>docs. length docs = length tfs \<and> written w1 = written w @ zip tfs docs \<and>
           remove_faults w1 = remove_faults w"
proof -
  from assms obtain doc starts where "split_loop self uu doc starts [] w = (Inr tfs, w1)"
    by (auto simp: split_pdf_def split: sum.splits)
  from split_loop_Inr[OF this] show ?thesis by (auto intro!: exI)
qed

lemma convert_snd_Inr:
  assumes "split_pdf self uu pdf_path w = (Inr tfs, w1)"
  shows "snd (convert_to_markdown self uu sched pdf_path parallel w) = cleanup tfs w1"
proof -
  from convert_body_split_Inr[OF assms, of sched parallel] obtain r where
    "convert_body self uu sched pdf_path parallel w = (r, tfs, w1)" by blast
  then show ?thesis by (cases r) (simp_all add: convert_to_markdown_def)
qed

text \<open>
  Claim C6 says that after every call, returned or raised, no chunk file created during
  the call remains. Two runs on the ten-page example show a chunk file that was written
  during the call and still exists after it. In the first, \<open>os.remove\<close> fails for the first
  chunk: the \<open>finally\<close> block logs a warning and goes on. In the second, the write of the
  second chunk fails inside \<open>_split_pdf\<close> and leaves an empty file: the call raises, the list
  of chunk paths never reaches \<open>convert_to_markdown\<close>, the \<open>finally\<close> block has nothing
  to remove, and both the first chunk and the empty file stay.
\<close>

theorem C6_artifact_remains:
  "map fst (written (snd (convert_to_markdown ex_self ex_uuid4_hex [] ''in.pdf'' True
      ex_denied_world))) = ex_chunk_paths \<and>
   exists_path (snd (convert_to_markdown ex_self ex_uuid4_hex [] ''in.pdf'' True ex_denied_world))
     ''temp/chunk_a.pdf'' \<and>
   fst (convert_to_markdown ex_self ex_uuid4_hex [] ''in.pdf'' True ex_full_world)
     = Inl (msg_convert_failed @ ''No space left on device'') \<and>
   written (snd (convert_to_markdown ex_self ex_uuid4_hex [] ''in.pdf'' True ex_full_world))
     = [(''temp/chunk_a.pdf'', Pdf [1, 2, 3]), (''temp/chunk_aa.pdf'', Text [])] \<and>
   exists_path (snd (convert_to_markdown ex_self ex_uuid4_hex [] ''in.pdf'' True ex_full_world))
     ''temp/chunk_a.pdf'' \<and>
   exists_path (snd (convert_to_markdown ex_self ex_uuid4_hex [] ''in.pdf'' True ex_full_world))
     ''temp/chunk_aa.pdf''"
  by code_simp

text \<open>
  Claim C6, amended. Provided that \<open>_split_pdf\<close>, if it raises, has put nothing on disk
  (no chunk file, and nothing left behind by the write that failed), and that no
  \<open>os.remove\<close> fails: after every call of \<open>convert_to_markdown\<close>, whatever its outcome (a
  text, a text holding failure placeholders, or a raised error), none of the files written
  during the call exists any more.
\<close>

theorem C6_no_artifact_remains:
  assumes "\<forall>e. fst (split_pdf self uuid4_hex pdf_path w) = Inl e \<longrightarrow>
             written (snd (split_pdf self uuid4_hex pdf_path w)) = written w"
    and "set (remove_faults w) \<subseteq> {None}"
  shows "\<exists>new.
           written (snd (convert_to_markdown self uuid4_hex sched pdf_path parallel w))
             = written w @ new \<and>
           (\<forall>p\<in>set (map fst new).
              \<not> exists_path (snd (convert_to_markdown self uuid4_hex sched pdf_path parallel w)) p)"
proof -
  obtain r w1 where sp: "split_pdf self uuid4_hex pdf_path w = (r, w1)"
    by (cases "split_pdf self uuid4_hex pdf_path w")
  show ?thesis
  proof (cases r)
    case (Inl e)
    with sp assms(1) have "written w1 = written w" by simp
    moreover from sp Inl
    have "snd (convert_to_markdown self uuid4_hex sched pdf_path parallel w) = w1"
      by (simp add: convert_to_markdown_def convert_body_split_Inl)
    ultimately show ?thesis by simp
  next
    case (Inr tfs)
    with sp have sp': "split_pdf self uuid4_hex pdf_path w = (Inr tfs, w1)" by simp
    from split_pdf_Inr[OF sp'] obtain docs where docs: "length docs = length tfs"
      "written w1 = written w @ zip tfs docs" "remove_faults w1 = remove_faults w" by blast
    let ?w' = "snd (convert_to_markdown self uuid4_hex sched pdf_path parallel w)"
    have w': "?w' = cleanup tfs w1" using sp' by (rule convert_snd_Inr)
    have "written ?w' = written w @ zip tfs docs" using w' docs(2) by (simp add: cleanup_written)
    moreover have "map fst (zip tfs docs) = tfs" using docs(1) by simp
    moreover have "\<forall>p\<in>set tfs. \<not> exists_path ?w' p"
      using w' docs(3) assms(2) cleanup_removes by simp
    ultimately show ?thesis by (intro exI[of _ "zip tfs docs"]) simp
  qed
qed

text \<open>
  The ten-page example on a disk without faults: four chunk files are written during the
  call and none of them exists after it. On the disk that refuses the first write the call
  raises and nothing was written.
\<close>

theorem C6_no_artifact_remains_witness:
  "fst (split_pdf ex_self ex_uuid4_hex ''in.pdf'' ex_world) = Inr ex_chunk_paths \<and>
   set (remove_faults ex_world) \<subseteq> {None} \<and>
   written (snd (convert_to_markdown ex_self ex_uuid4_hex [] ''in.pdf'' True ex_world))
     = written ex_split_world \<and>
   \<not> exists_path (snd (convert_to_markdown ex_self ex_uuid4_hex [] ''in.pdf'' True ex_world))
       ''temp/chunk_a.pdf'' \<and>
   \<not> exists_path (snd (convert_to_markdown ex_self ex_uuid4_hex [] ''in.pdf'' True ex_world))
       ''temp/chunk_aa.pdf'' \<and>
   \<not> exists_path (snd (convert_to_markdown ex_self ex_uuid4_hex [] ''in.pdf'' True ex_world))
       ''temp/chunk_aaa.pdf'' \<and>
   \<not> exists_path (snd (convert_to_markdown ex_self ex_uuid4_hex [] ''in.pdf'' True ex_world))
       ''temp/chunk_aaaa.pdf'' \<and>
   fst (split_pdf ex_self ex_uuid4_hex ''in.pdf'' ex_refused_world) = Inl ''Permission denied'' \<and>
   written (snd (split_pdf ex_self ex_uuid4_hex ''in.pdf'' ex_refused_world))
     = written ex_refused_world \<and>
   set (remove_faults ex_refused_world) \<subseteq> {None} \<and>
   fst (convert_to_markdown ex_self ex_uuid4_hex [] ''in.pdf'' True ex_refused_world)
     = Inl (msg_convert_failed @ ''Permission denied'') \<and>
   written (snd (convert_to_markdown ex_self ex_uuid4_hex [] ''in.pdf'' True ex_refused_world)) = []"
proof -
  let ?w' = "snd (convert_to_markdown ex_self ex_uuid4_hex [] ''in.pdf'' True ex_world)"
  let ?v' = "snd (convert_to_markdown ex_self ex_uuid4_hex [] ''in.pdf'' True ex_refused_world)"
  have s: "fst (split_pdf ex_self ex_uuid4_hex ''in.pdf'' ex_world) = Inr ex_chunk_paths"
    by code_simp
  then have h1: "\<forall>e. fst (split_pdf ex_self ex_uuid4_hex ''in.pdf'' ex_world) = Inl e \<longrightarrow>
             written (snd (split_pdf ex_self ex_uuid4_hex ''in.pdf'' ex_world)) = written ex_world"
    by simp
  have h2: "set (remove_faults ex_world) \<subseteq> {None}" by (simp add: ex_world_def)
  have wr: "written ?w' = written ex_split_world" by code_simp
  from C6_no_artifact_remains[OF h1 h2, of "[]" True]
  obtain new where new: "written ?w' = written ex_world @ new"
    and gone: "\<forall>p\<in>set (map fst new). \<not> exists_path ?w' p" by blast
  have "written ex_world = []" by (simp add: ex_world_def)
  with new wr have "new = written ex_split_world" by simp
  then have "set (map fst new) = set ex_chunk_paths"
    by (simp add: ex_split_world_def ex_chunk_paths_def)
  with gone have "\<forall>p\<in>set ex_chunk_paths. \<not> exists_path ?w' p" by (simp only:)
  then have a: "\<not> exists_path ?w' ''temp/chunk_a.pdf''" "\<not> exists_path ?w' ''temp/chunk_aa.pdf''"
    "\<not> exists_path ?w' ''temp/chunk_aaa.pdf''" "\<not> exists_path ?w' ''temp/chunk_aaaa.pdf''"
    by (simp_all add: ex_chunk_paths_def)
  have r: "fst (split_pdf ex_self ex_uuid4_hex ''in.pdf'' ex_refused_world) = Inl ''Permission denied''"
    by code_simp
  have k: "written (snd (split_pdf ex_self ex_uuid4_hex ''in.pdf'' ex_refused_world))
      = written ex_refused_world"
    by code_simp
  then have g1: "\<forall>e. fst (split_pdf ex_self ex_uuid4_hex ''in.pdf'' ex_refused_world) = Inl e \<longrightarrow>
      written (snd (split_pdf ex_self ex_uuid4_hex ''in.pdf'' ex_refused_world))
        = written ex_refused_world"
    by (simp only: simp_thms)
  have g2: "set (remove_faults ex_refused_world) \<subseteq> {None}"
    by (simp add: ex_refused_world_def ex_world_def)
  have c: "fst (convert_to_markdown ex_self ex_uuid4_hex [] ''in.pdf'' True ex_refused_world)
      = Inl (msg_convert_failed @ ''Permission denied'')"
    by code_simp
  from C6_no_artifact_remains[OF g1 g2, of "[]" True]
  obtain new' where "written ?v' = written ex_refused_world @ new'" by blast
  moreover have "written ?v' = []" by code_simp
  ultimately have v: "written ?v' = []" by simp
  from s h2 wr a r k g2 c v show ?thesis by (intro conjI)
qed

section \<open>Errors of the run\<close>

text \<open>
  Claim C8. Whenever the \<open>try\<close> block of \<open>convert_to_markdown\<close> is left by an exception with
  message \<open>e\<close>, the call raises one error whose message is the context prefix followed by
  \<open>e\<close>, and the world in which the caller receives it is the one after the \<open>finally\<close>
  block has run over the recorded chunk paths: where no \<open>os.remove\<close> fails, none of them
  exists any more. The underlying cause is one of: the source cannot be opened (missing,
  or not a PDF), the chunk size is zero, a chunk write failed, a chunk job returned no
  result, or there is no chunk to divide by.
\<close>

theorem C8_error_wrapped_after_cleanup:
  assumes "convert_body self uuid4_hex sched pdf_path parallel w = (Inl e, temp_files, w1)"
  shows "convert_to_markdown self uuid4_hex sched pdf_path parallel w =
           (Inl (msg_convert_failed @ e), cleanup temp_files w1) \<and>
         (e = fitz_no_file pdf_path \<or> e = fitz_bad_file pdf_path \<or>
          e = ''range() arg 3 must not be zero'' \<or> Some e \<in> set (write_faults w) \<or>
          e = py_repr ''NoneType'' @ '' object is not subscriptable'' \<or>
          e = ''division by zero'') \<and>
         (set (remove_faults w1) \<subseteq> {None} \<longrightarrow>
            (\<forall>p\<in>set temp_files. \<not> exists_path (cleanup temp_files w1) p))"
proof -
  have wrapped: "convert_to_markdown self uuid4_hex sched pdf_path parallel w =
           (Inl (msg_convert_failed @ e), cleanup temp_files w1)"
    using assms by (simp add: convert_to_markdown_def)
  obtain r w2 where sp: "split_pdf self uuid4_hex pdf_path w = (r, w2)"
    by (cases "split_pdf self uuid4_hex pdf_path w")
  have cause: "e = fitz_no_file pdf_path \<or> e = fitz_bad_file pdf_path \<or>
          e = ''range() arg 3 must not be zero'' \<or> Some e \<in> set (write_faults w) \<or>
          e = py_repr ''NoneType'' @ '' object is not subscriptable'' \<or>
          e = ''division by zero''"
  proof (cases r)
    case (Inl e')
    with sp assms have "e' = e" by (simp add: convert_body_split_Inl)
    with sp Inl split_pdf_Inl[of self uuid4_hex pdf_path w e w2] show ?thesis by blast
  next
    case (Inr tfs)
    with sp convert_body_split_Inr[of self uuid4_hex pdf_path w tfs w2 sched parallel] assms
    show ?thesis by auto
  qed
  have "\<forall>p\<in>set temp_files. \<not> exists_path (cleanup temp_files w1) p"
    if "set (remove_faults w1) \<subseteq> {None}"
    using that cleanup_removes by blast
  with wrapped cause show ?thesis by blast
qed

text \<open>
  With \<open>max_retries = 0\<close> the sort of the results raises after four chunk files were
  written; the caller receives the wrapped error in a world from which they are gone.
\<close>

theorem C8_error_wrapped_after_cleanup_witness:
  "convert_body ex_no_retry_self ex_uuid4_hex [] ''in.pdf'' True ex_world =
     (Inl (py_repr ''NoneType'' @ '' object is not subscriptable''), ex_chunk_paths, ex_split_world) \<and>
   convert_to_markdown ex_no_retry_self ex_uuid4_hex [] ''in.pdf'' True ex_world =
     (Inl (msg_convert_failed @ py_repr ''NoneType'' @ '' object is not subscriptable''),
      cleanup ex_chunk_paths ex_split_world) \<and>
   files (cleanup ex_chunk_paths ex_split_world) = files ex_world"
proof -
  have h: "convert_body ex_no_retry_self ex_uuid4_hex [] ''in.pdf'' True ex_world =
     (Inl (py_repr ''NoneType'' @ '' object is not subscriptable''), ex_chunk_paths, ex_split_world)"
    by code_simp
  have f: "files (cleanup ex_chunk_paths ex_split_world) = files ex_world" by code_simp
  from C8_error_wrapped_after_cleanup[OF h] h f show ?thesis by (intro conjI) blast+
qed

section \<open>A chunk whose every attempt fails\<close>

lemma split_loop_files_pdf:
  assumes "split_loop self uu doc starts acc w = (Inr tfs, w')"
    and "\<And>p. p \<in> set acc \<Longrightarrow> \<exists>ps. map_of (files w) p = Some (Pdf ps)"
    and "p \<in> set tfs"
  shows "\<exists>ps. map_of (files w') p = Some (Pdf ps)"
  using assms
proof (induction starts arbitrary: acc w)
  case Nil
  then show ?case by simp
next
  case (Cons start rest)
  let ?p = "chunk_path self (uu (draws w))"
  let ?d = "Pdf (insert_pdf doc start (min (start + nat (chunk_size self)) (length doc) - 1))"
  let ?w1 = "w\<lparr>draws := Suc (draws w)\<rparr>"
  obtain r w2 where wf: "write_file ?p ?d ?w1 = (r, w2)" by (cases "write_file ?p ?d ?w1")
  show ?case
  proof (cases r)
    case (Inl e)
    with Cons.prems(1) wf show ?thesis by (simp add: Let_def)
  next
    case (Inr u)
    with Cons.prems(1) wf have rec: "split_loop self uu doc rest (acc @ [?p]) w2 = (Inr tfs, w')"
      by (simp add: Let_def)
    from wf Inr have f2: "files w2 = AList.update ?p ?d (files w)"
      using write_file_Inr(1)[of ?p ?d ?w1 u w2] by simp
    have "\<exists>ps. map_of (files w2) q = Some (Pdf ps)" if "q \<in> set (acc @ [?p])" for q
    proof (cases "q = ?p")
      case True
      then show ?thesis by (simp add: f2 update_conv')
    next
      case False
      with that have "q \<in> set acc" by simp
      from Cons.prems(2)[OF this] False show ?thesis by (simp add: f2 update_conv')
    qed
    from Cons.IH[OF rec this Cons.prems(3)] show ?thesis by blast
  qed
qed

lemma split_pdf_files_pdf:
  assumes "split_pdf self uu pdf_path w = (Inr tfs, w1)" and "p \<in> set tfs"
  shows "\<exists>ps. map_of (files w1) p = Some (Pdf ps)"
proof -
  from assms(1) obtain doc starts where "split_loop self uu doc starts [] w = (Inr tfs, w1)"
    by (auto simp: split_pdf_def split: sum.splits)
  from split_loop_files_pdf[OF this _ assms(2)] show ?thesis by simp
qed

text \<open>
  Claim C4. Let \<open>max_retries \<ge> 1\<close>, let splitting succeed, and let the remote model raise on
  every call made for chunk \<open>i\<close>, with message \<open>err a\<close> on attempt \<open>a\<close>. Then
  \<open>_process_chunk\<close> returns, for chunk \<open>i\<close>, the result with \<open>success = False\<close> whose
  content is the HTML comment holding the message of the last attempt, and
  \<open>convert_to_markdown\<close> returns a text: the contents of all chunks, this placeholder
  among them, in index order and joined by blank lines.
\<close>

theorem C4_failed_chunk_absorbed:
  assumes "1 \<le> max_retries self"
    and "split_pdf self uuid4_hex pdf_path w = (Inr temp_files, w1)"
    and "i < length temp_files"
    and "\<forall>a d. model self i a d = Inl (err a)"
  shows "fst (process_chunk self w1 (temp_files ! i) i) =
           Some \<lparr>index = i,
                 content = ''<!-- '' @ msg_chunk_failed @ err (nat (max_retries self) - 1) @ '' -->'',
                 success = False\<rparr> \<and>
         (\<exists>w'. convert_to_markdown self uuid4_hex sched pdf_path parallel w =
            (Inr (py_join blank_line
               (map (\<lambda>j. content (the (fst (process_chunk self w1 (temp_files ! j) j))))
                    [0..<length temp_files])), w'))"
proof -
  let ?n = "nat (max_retries self)"
  have n: "int ?n = max_retries self" "0 < ?n" using assms(1) by simp_all
  from assms(3) have "temp_files ! i \<in> set temp_files" by simp
  from split_pdf_files_pdf[OF assms(2) this] obtain ps where
    "map_of (files w1) (temp_files ! i) = Some (Pdf ps)" by blast
  then have "attempt_chunk self w1 (temp_files ! i) i a = (Inl (err a), [Request i a])" for a
    using assms(4) by (simp add: attempt_chunk_pdf)
  from process_loop_all_fail[OF n(1) this n(2)]
  have failed: "fst (process_chunk self w1 (temp_files ! i) i) =
           Some \<lparr>index = i,
                 content = ''<!-- '' @ msg_chunk_failed @ err (?n - 1) @ '' -->'',
                 success = False\<rparr>"
    by (simp add: process_chunk_def py_range_def failure_content_def)
  from assms(3) have "temp_files \<noteq> []" by auto
  from convert_body_returns[OF assms(1,2) this, of sched parallel]
  have "\<exists>w'. convert_to_markdown self uuid4_hex sched pdf_path parallel w =
            (Inr (py_join blank_line
               (map (\<lambda>j. content (the (fst (process_chunk self w1 (temp_files ! j) j))))
                    [0..<length temp_files])), w')"
    by (simp add: convert_to_markdown_def)
  with failed show ?thesis by blast
qed

text \<open>
  The ten-page example with a model failing for chunk 1 only: the text holds \<open>chunk0\<close>, the
  placeholder with the third attempt's message, \<open>chunk2\<close> and \<open>chunk3\<close>.
\<close>

theorem C4_failed_chunk_absorbed_witness:
  "1 \<le> max_retries ex_flaky_self \<and>
   split_pdf ex_flaky_self ex_uuid4_hex ''in.pdf'' ex_world = (Inr ex_chunk_paths, ex_split_world) \<and>
   (\<forall>a d. model ex_flaky_self 1 a d = Inl (''timeout '' @ [char_of (48 + a)])) \<and>
   fst (process_chunk ex_flaky_self ex_split_world ''temp/chunk_aa.pdf'' 1) =
     Some \<lparr>index = 1, content = ''<!-- '' @ msg_chunk_failed @ ''timeout 2'' @ '' -->'',
           success = False\<rparr> \<and>
   fst (convert_to_markdown ex_flaky_self ex_uuid4_hex [2, 0] ''in.pdf'' True ex_world) =
     Inr (''chunk0'' @ blank_line @ ''<!-- '' @ msg_chunk_failed @ ''timeout 2'' @ '' -->''
          @ blank_line @ ''chunk2'' @ blank_line @ ''chunk3'')"
proof -
  have h1: "1 \<le> max_retries ex_flaky_self" by (simp add: ex_flaky_self_def ex_self_def)
  have h2: "split_pdf ex_flaky_self ex_uuid4_hex ''in.pdf'' ex_world =
      (Inr ex_chunk_paths, ex_split_world)" by code_simp
  have h3: "1 < length ex_chunk_paths" by (simp add: ex_chunk_paths_def)
  have h4: "\<forall>a d. model ex_flaky_self 1 a d = Inl (''timeout '' @ [char_of (48 + a)])"
    by (simp add: ex_flaky_self_def ex_flaky_model_def ex_failing_model_def)
  have p: "ex_chunk_paths ! 1 = ''temp/chunk_aa.pdf''" by (simp add: ex_chunk_paths_def)
  have d: "char_of (50 :: nat) = CHR ''2''" by code_simp
  have m: "nat (max_retries ex_flaky_self) - 1 = 2" by (simp add: ex_flaky_self_def ex_self_def)
  have c: "fst (convert_to_markdown ex_flaky_self ex_uuid4_hex [2, 0] ''in.pdf'' True ex_world) =
     Inr (''chunk0'' @ blank_line @ ''<!-- '' @ msg_chunk_failed @ ''timeout 2'' @ '' -->''
          @ blank_line @ ''chunk2'' @ blank_line @ ''chunk3'')" by code_simp
  from C4_failed_chunk_absorbed[OF h1 h2 h3 h4, of "[2, 0]" True]
  have "fst (process_chunk ex_flaky_self ex_split_world (ex_chunk_paths ! 1) 1) =
     Some \<lparr>index = 1,
           content = ''<!-- '' @ msg_chunk_failed @
             (''timeout '' @ [char_of (48 + (nat (max_retries ex_flaky_self) - 1))]) @ '' -->'',
           success = False\<rparr>"
    by blast
  then have "fst (process_chunk ex_flaky_self ex_split_world ''temp/chunk_aa.pdf'' 1) =
     Some \<lparr>index = 1, content = ''<!-- '' @ msg_chunk_failed @ ''timeout 2'' @ '' -->'',
           success = False\<rparr>"
    by (simp only: p m) (simp add: d)
  with h1 h2 h4 c show ?thesis by (intro conjI)
qed

end
